theory Spec2Isabelle
  imports Complex_Main "HOL-Library.Sublist"
begin

section \<open>MemoryMesh: the multi-provider AI orchestration layer\<close>

text \<open>
  A shallow embedding of \<^verbatim>\<open>src/services/ai/AIProvider.ts\<close>, the file with the
  three provider classes and \<^verbatim>\<open>class AIOrchestrator\<close>: the
  capability router (\<^verbatim>\<open>selectProvider\<close>), the orchestrator operations
  \<^verbatim>\<open>transcribeAudio\<close> and \<^verbatim>\<open>extractContext\<close>, the result fusion
  (\<^verbatim>\<open>fuseContextResults\<close>) and the response handling of the providers'
  \<^verbatim>\<open>extractContext\<close>.
\<close>

subsection \<open>Strings and numbers\<close>

text \<open>
  A JavaScript string is a sequence of UTF-16 code units; a code unit is a natural
  number here. \<open>js\<close> turns a literal into the string of its characters' codes.
  A \<^verbatim>\<open>number\<close> is a real: the rounding of IEEE doubles is outside the model.
\<close>

type_synonym code_unit = nat

type_synonym js_string = "code_unit list"

definition js :: "string \<Rightarrow> js_string" where
  "js s = map of_char s"

subsection \<open>Enumerations and result types\<close>

datatype AIProvider = CLAUDE | KIMI | OPENAI

text \<open>The string value of each member of \<^verbatim>\<open>enum AIProvider\<close>.\<close>

fun AIProvider_str :: "AIProvider \<Rightarrow> js_string" where
  "AIProvider_str CLAUDE = js ''claude''"
| "AIProvider_str KIMI = js ''kimi''"
| "AIProvider_str OPENAI = js ''openai''"

datatype AICapability =
    TRANSCRIPTION
  | CONTEXT_EXTRACTION
  | SUMMARIZATION
  | SEARCH
  | TRANSLATION
  | CODE_ANALYSIS
  | CREATIVE
  | CONVERSATION

record Segment =
  seg_text :: js_string
  seg_start :: real
  seg_end :: real

record TranscriptionResult =
  tr_text :: js_string
  tr_language :: js_string
  tr_confidence :: real
  tr_duration :: "real option"
  tr_segments :: "Segment list option"

datatype Sentiment = Positive | Negative | Neutral

record ContextExtractionResult =
  summary :: js_string
  title :: js_string
  tags :: "js_string list"
  people :: "js_string list"
  places :: "js_string list"
  dates :: "js_string list"
  tasks :: "js_string list"
  emotions :: "js_string list"
  priority :: real
  category :: js_string
  sentiment :: Sentiment
  confidence :: real

subsection \<open>Failures\<close>

text \<open>
  A provider call rejects either because the backend request rejected
  (\<open>ProviderUnavailable\<close>) or because the provider threw while reading the
  response: \<^verbatim>\<open>Error('Unexpected response type from Claude')\<close>, the
  \<^verbatim>\<open>TypeError\<close> of reading a missing first element, or the
  \<^verbatim>\<open>SyntaxError\<close> of \<^verbatim>\<open>JSON.parse\<close> (\<open>MalformedResponse\<close>).
  The orchestrator passes a provider's rejection on unchanged (\<open>ProviderFailure\<close>)
  and has one throw site of its own,
  \<^verbatim>\<open>Error('All AI providers failed to extract context')\<close>
  (\<open>AllProvidersFailed\<close>). Its fusion throws where it spreads a value that is
  not iterable, a \<^verbatim>\<open>TypeError\<close> (\<open>SpreadTypeError\<close>).
  \<open>UnsupportedCapability\<close> is the remaining kind of the failure taxonomy; the
  source has no throw site for it.
\<close>

datatype provider_error = ProviderUnavailable | MalformedResponse

datatype orchestrator_error =
    ProviderFailure provider_error
  | AllProvidersFailed
  | SpreadTypeError
  | UnsupportedCapability

section \<open>The providers' response handling\<close>

text \<open>
  Both providers end their \<^verbatim>\<open>extractContext\<close> with
  \<^verbatim>\<open>return JSON.parse(...)\<close>. The value returned is whatever JSON value the
  text denotes: the declared return type \<^verbatim>\<open>ContextExtractionResult\<close> is
  erased at run time, and no field is read or checked. The provider methods are
  therefore embedded with JSON values as results, and \<^verbatim>\<open>JSON.parse\<close> with
  its grammar (ECMA-404), as a tokenizer followed by a parser over the tokens.
\<close>

subsection \<open>JSON values and tokens\<close>

text \<open>
  An object holds its members in the order in which their keys were first defined. A
  number holds the exact value of its literal.
\<close>

datatype json =
    JNull
  | JBool bool
  | JNumber real
  | JString js_string
  | JArray "json list"
  | JObject "(js_string \<times> json) list"

datatype token =
    LBrace
  | RBrace
  | LBracket
  | RBracket
  | Colon
  | Comma
  | TString js_string
  | TNumber real
  | TTrue
  | TFalse
  | TNull

subsection \<open>Lexical elements\<close>

text \<open>White space is space, tab, line feed and carriage return.\<close>

definition is_ws :: "code_unit \<Rightarrow> bool" where
  "is_ws c = (c = 0x20 \<or> c = 0x09 \<or> c = 0x0A \<or> c = 0x0D)"

definition is_digit :: "code_unit \<Rightarrow> bool" where
  "is_digit c = (0x30 \<le> c \<and> c \<le> 0x39)"

definition hex_value :: "code_unit \<Rightarrow> nat option" where
  "hex_value c =
    (if 0x30 \<le> c \<and> c \<le> 0x39 then Some (c - 0x30)
     else if 0x41 \<le> c \<and> c \<le> 0x46 then Some (c - 0x41 + 10)
     else if 0x61 \<le> c \<and> c \<le> 0x66 then Some (c - 0x61 + 10)
     else None)"

definition hex4 ::
  "code_unit \<Rightarrow> code_unit \<Rightarrow> code_unit \<Rightarrow> code_unit \<Rightarrow> code_unit option" where
  "hex4 a b c d =
    (case (hex_value a, hex_value b, hex_value c, hex_value d) of
       (Some h1, Some h2, Some h3, Some h4) \<Rightarrow> Some (((h1 * 16 + h2) * 16 + h3) * 16 + h4)
     | _ \<Rightarrow> None)"

text \<open>
  The character after a backslash, other than \<open>u\<close>: quotation mark, backslash,
  solidus, and \<open>b f n r t\<close>, each with the code unit it stands for.
\<close>

definition simple_escape :: "code_unit \<Rightarrow> code_unit option" where
  "simple_escape c =
    (if c = 0x22 then Some 0x22
     else if c = 0x5C then Some 0x5C
     else if c = 0x2F then Some 0x2F
     else if c = 0x62 then Some 0x08
     else if c = 0x66 then Some 0x0C
     else if c = 0x6E then Some 0x0A
     else if c = 0x72 then Some 0x0D
     else if c = 0x74 then Some 0x09
     else None)"

text \<open>
  The rest of a string literal, after its opening quotation mark: the string it denotes
  and the text after its closing quotation mark. A code unit below \<open>0x20\<close> is
  not allowed in a string literal.
\<close>

fun lex_string :: "js_string \<Rightarrow> (js_string \<times> js_string) option" where
  "lex_string [] = None"
| "lex_string (c # cs) =
    (if c = 0x22 then Some ([], cs)
     else if c = 0x5C then
       (case cs of
          [] \<Rightarrow> None
        | e # es \<Rightarrow>
            if e = 0x75 then
              (case es of
                 h1 # h2 # h3 # h4 # rest \<Rightarrow>
                   (case hex4 h1 h2 h3 h4 of
                      None \<Rightarrow> None
                    | Some u \<Rightarrow> map_option (\<lambda>(s, r). (u # s, r)) (lex_string rest))
               | _ \<Rightarrow> None)
            else
              (case simple_escape e of
                 None \<Rightarrow> None
               | Some v \<Rightarrow> map_option (\<lambda>(s, r). (v # s, r)) (lex_string es)))
     else if c < 0x20 then None
     else map_option (\<lambda>(s, r). (c # s, r)) (lex_string cs))"

text \<open>
  A number is an optional minus sign, an integer part (\<open>0\<close>, or digits that do not
  start with \<open>0\<close>), an optional fraction (a point and digits) and an optional
  exponent (\<open>e\<close> or \<open>E\<close>, an optional sign and digits). Each part takes as many
  digits as there are.
\<close>

definition digits_value :: "js_string \<Rightarrow> nat" where
  "digits_value ds = foldl (\<lambda>n d. 10 * n + (d - 0x30)) 0 ds"

definition lex_int :: "js_string \<Rightarrow> (js_string \<times> js_string) option" where
  "lex_int s =
    (case s of
       [] \<Rightarrow> None
     | c # cs \<Rightarrow>
         if c = 0x30 then Some ([c], cs)
         else if is_digit c then Some (takeWhile is_digit s, dropWhile is_digit s)
         else None)"

definition lex_frac :: "js_string \<Rightarrow> js_string \<times> js_string" where
  "lex_frac s =
    (case s of
       [] \<Rightarrow> ([], s)
     | p # ds \<Rightarrow>
         if p = 0x2E \<and> takeWhile is_digit ds \<noteq> []
         then (takeWhile is_digit ds, dropWhile is_digit ds)
         else ([], s))"

definition lex_sign :: "js_string \<Rightarrow> int \<times> js_string" where
  "lex_sign s =
    (case s of
       [] \<Rightarrow> (1, s)
     | g # ds \<Rightarrow> if g = 0x2B then (1, ds) else if g = 0x2D then (- 1, ds) else (1, s))"

definition lex_exp :: "js_string \<Rightarrow> int \<times> js_string" where
  "lex_exp s =
    (case s of
       [] \<Rightarrow> (0, s)
     | e # cs \<Rightarrow>
         (case lex_sign cs of
            (sg, ds) \<Rightarrow>
              if (e = 0x65 \<or> e = 0x45) \<and> takeWhile is_digit ds \<noteq> []
              then (sg * int (digits_value (takeWhile is_digit ds)), dropWhile is_digit ds)
              else (0, s)))"

definition pow10 :: "int \<Rightarrow> real" where
  "pow10 e = (if 0 \<le> e then 10 ^ nat e else 1 / 10 ^ nat (- e))"

definition lex_number :: "js_string \<Rightarrow> (real \<times> js_string) option" where
  "lex_number s =
    (let neg = (case s of c # cs \<Rightarrow> c = 0x2D | [] \<Rightarrow> False);
         s1 = (if neg then tl s else s)
     in case lex_int s1 of
          None \<Rightarrow> None
        | Some (ip, s2) \<Rightarrow>
            (case lex_frac s2 of
               (fp, s3) \<Rightarrow>
                 (case lex_exp s3 of
                    (ex, s4) \<Rightarrow>
                      Some ((if neg then - 1 else 1) *
                            (real (digits_value ip) + real (digits_value fp) / 10 ^ length fp) *
                            pow10 ex, s4))))"

subsection \<open>The tokenizer\<close>

text \<open>Every lexical element consumes at least one code unit.\<close>

lemma lex_string_shorter: "lex_string s = Some (v, r) \<Longrightarrow> length r < length s"
proof (induction s arbitrary: v r rule: lex_string.induct)
  case 1
  then show ?case by simp
next
  case (2 c cs)
  then show ?case
    by (auto split: if_splits list.splits option.splits) fastforce+
qed

lemma lex_int_shorter: "lex_int s = Some (v, r) \<Longrightarrow> length r < length s"
  by (auto simp: lex_int_def split: list.splits if_splits
      intro: le_imp_less_Suc length_dropWhile_le)

lemma lex_frac_shorter: "lex_frac s = (v, r) \<Longrightarrow> length r \<le> length s"
  by (auto simp: lex_frac_def split: list.splits if_splits
      intro: le_SucI length_dropWhile_le)

lemma lex_sign_shorter: "lex_sign s = (v, r) \<Longrightarrow> length r \<le> length s"
  by (auto simp: lex_sign_def split: list.splits if_splits)

lemma lex_exp_shorter: "lex_exp s = (v, r) \<Longrightarrow> length r \<le> length s"
proof (cases s)
  case Nil
  assume "lex_exp s = (v, r)"
  with Nil show ?thesis by (simp add: lex_exp_def)
next
  case (Cons e cs)
  assume a: "lex_exp s = (v, r)"
  obtain sg ds where sg: "lex_sign cs = (sg, ds)" by (cases "lex_sign cs")
  have "length (dropWhile is_digit ds) \<le> length ds" by (rule length_dropWhile_le)
  with lex_sign_shorter [OF sg] have "length (dropWhile is_digit ds) \<le> length s"
    using Cons by simp
  with a Cons sg show ?thesis
    by (auto simp: lex_exp_def split: if_splits)
qed

lemma lex_number_shorter: "lex_number s = Some (v, r) \<Longrightarrow> length r < length s"
proof -
  assume a: "lex_number s = Some (v, r)"
  define s1 where "s1 = (if (case s of c # cs \<Rightarrow> c = 0x2D | [] \<Rightarrow> False) then tl s else s)"
  have l1: "length s1 \<le> length s" by (simp add: s1_def)
  from a obtain ip s2 fp s3 ex where
    i: "lex_int s1 = Some (ip, s2)" and f: "lex_frac s2 = (fp, s3)" and e: "lex_exp s3 = (ex, r)"
    by (auto simp: lex_number_def Let_def s1_def split: option.splits prod.splits)
  from lex_int_shorter [OF i] lex_frac_shorter [OF f] lex_exp_shorter [OF e] l1
  show ?thesis by simp
qed

text \<open>
  The text as a list of tokens; \<open>None\<close> when some code unit starts no token. White
  space between tokens is skipped.
\<close>

function tokenize :: "js_string \<Rightarrow> token list option" where
  "tokenize [] = Some []"
| "tokenize (c # cs) =
    (if is_ws c then tokenize cs
     else if c = 0x7B then map_option (Cons LBrace) (tokenize cs)
     else if c = 0x7D then map_option (Cons RBrace) (tokenize cs)
     else if c = 0x5B then map_option (Cons LBracket) (tokenize cs)
     else if c = 0x5D then map_option (Cons RBracket) (tokenize cs)
     else if c = 0x3A then map_option (Cons Colon) (tokenize cs)
     else if c = 0x2C then map_option (Cons Comma) (tokenize cs)
     else if c = 0x22 then
       (case lex_string cs of
          None \<Rightarrow> None
        | Some (s, r) \<Rightarrow> map_option (Cons (TString s)) (tokenize r))
     else if c = 0x2D \<or> is_digit c then
       (case lex_number (c # cs) of
          None \<Rightarrow> None
        | Some (v, r) \<Rightarrow> map_option (Cons (TNumber v)) (tokenize r))
     else if prefix (js ''true'') (c # cs) then map_option (Cons TTrue) (tokenize (drop 3 cs))
     else if prefix (js ''false'') (c # cs) then map_option (Cons TFalse) (tokenize (drop 4 cs))
     else if prefix (js ''null'') (c # cs) then map_option (Cons TNull) (tokenize (drop 3 cs))
     else None)"
  by pat_completeness auto
termination
proof (relation "measure length")
  show "wf (measure length)" by simp
next
  fix c cs x2 x y
  assume "lex_string cs = Some x2" "(x, y) = x2"
  then have "lex_string cs = Some (x, y)" by simp
  from lex_string_shorter [OF this] show "(y, c # cs) \<in> measure length" by simp
next
  fix c cs x2 x y
  assume "lex_number (c # cs) = Some x2" "(x, y) = x2"
  then have "lex_number (c # cs) = Some (x, y)" by simp
  from lex_number_shorter [OF this] show "(y, c # cs) \<in> measure length" by simp
qed simp_all

subsection \<open>The parser\<close>

text \<open>
  The parser reads the tokens from left to right. Its state is what may come next
  (\<open>mode\<close>) and the stack of the arrays and objects that are open: an array with the
  elements read so far, an object with the members read so far and the key whose value
  is awaited, if any.
\<close>

datatype frame =
    FArray "json list"
  | FObject "(js_string \<times> json) list" "js_string option"

datatype mode =
    MValue
  | MValueOrClose
  | MKey
  | MKeyOrClose
  | MColon
  | MNext
  | MDone json

text \<open>A key that is defined again keeps its place and takes the new value.\<close>

fun define_member ::
  "(js_string \<times> json) list \<Rightarrow> js_string \<Rightarrow> json \<Rightarrow> (js_string \<times> json) list" where
  "define_member [] k v = [(k, v)]"
| "define_member ((k', v') # ms) k v =
    (if k' = k then (k, v) # ms else (k', v') # define_member ms k v)"

text \<open>A finished value goes to the innermost open array or object, or is the result.\<close>

fun deliver :: "json \<Rightarrow> frame list \<Rightarrow> (mode \<times> frame list) option" where
  "deliver v [] = Some (MDone v, [])"
| "deliver v (FArray es # st) = Some (MNext, FArray (es @ [v]) # st)"
| "deliver v (FObject ms (Some k) # st) = Some (MNext, FObject (define_member ms k v) None # st)"
| "deliver v (FObject ms None # st) = None"

fun scalar :: "token \<Rightarrow> json option" where
  "scalar (TString s) = Some (JString s)"
| "scalar (TNumber n) = Some (JNumber n)"
| "scalar TTrue = Some (JBool True)"
| "scalar TFalse = Some (JBool False)"
| "scalar TNull = Some JNull"
| "scalar _ = None"

fun close_array :: "frame list \<Rightarrow> (mode \<times> frame list) option" where
  "close_array (FArray es # st) = deliver (JArray es) st"
| "close_array _ = None"

fun close_object :: "frame list \<Rightarrow> (mode \<times> frame list) option" where
  "close_object (FObject ms None # st) = deliver (JObject ms) st"
| "close_object _ = None"

fun begin_value :: "token \<Rightarrow> frame list \<Rightarrow> (mode \<times> frame list) option" where
  "begin_value LBracket st = Some (MValueOrClose, FArray [] # st)"
| "begin_value LBrace st = Some (MKeyOrClose, FObject [] None # st)"
| "begin_value t st = (case scalar t of None \<Rightarrow> None | Some v \<Rightarrow> deliver v st)"

fun take_key :: "token \<Rightarrow> frame list \<Rightarrow> (mode \<times> frame list) option" where
  "take_key (TString k) (FObject ms None # st) = Some (MColon, FObject ms (Some k) # st)"
| "take_key _ _ = None"

fun after_comma :: "frame list \<Rightarrow> (mode \<times> frame list) option" where
  "after_comma (FArray es # st) = Some (MValue, FArray es # st)"
| "after_comma (FObject ms None # st) = Some (MKey, FObject ms None # st)"
| "after_comma _ = None"

fun step :: "mode \<times> frame list \<Rightarrow> token \<Rightarrow> (mode \<times> frame list) option" where
  "step (MValue, st) t = begin_value t st"
| "step (MValueOrClose, st) t = (if t = RBracket then close_array st else begin_value t st)"
| "step (MKey, st) t = take_key t st"
| "step (MKeyOrClose, st) t = (if t = RBrace then close_object st else take_key t st)"
| "step (MColon, st) t = (if t = Colon then Some (MValue, st) else None)"
| "step (MNext, st) t =
    (if t = Comma then after_comma st
     else if t = RBracket then close_array st
     else if t = RBrace then close_object st
     else None)"
| "step (MDone v, st) t = None"

fun run :: "mode \<times> frame list \<Rightarrow> token list \<Rightarrow> (mode \<times> frame list) option" where
  "run cfg [] = Some cfg"
| "run cfg (t # ts) = (case step cfg t of None \<Rightarrow> None | Some cfg' \<Rightarrow> run cfg' ts)"

definition parse_tokens :: "token list \<Rightarrow> json option" where
  "parse_tokens ts =
    (case run (MValue, []) ts of
       Some (MDone v, st) \<Rightarrow> Some v
     | _ \<Rightarrow> None)"

text \<open>\<^verbatim>\<open>JSON.parse\<close>: \<open>None\<close> is the \<^verbatim>\<open>SyntaxError\<close> it throws.\<close>

definition JSON_parse :: "js_string \<Rightarrow> json option" where
  "JSON_parse s = (case tokenize s of None \<Rightarrow> None | Some ts \<Rightarrow> parse_tokens ts)"

subsection \<open>The tokens of a value\<close>

text \<open>
  The tokens that write a JSON value down, without white space: the converse of the
  parser, against which it is checked below. \<open>distinct_keys\<close> holds of a value in
  which no object has a key twice.
\<close>

fun sep :: "token list list \<Rightarrow> token list" where
  "sep [] = []"
| "sep [x] = x"
| "sep (x # y # ys) = x @ Comma # sep (y # ys)"

fun tokens_of :: "json \<Rightarrow> token list" where
  "tokens_of JNull = [TNull]"
| "tokens_of (JBool b) = [if b then TTrue else TFalse]"
| "tokens_of (JNumber n) = [TNumber n]"
| "tokens_of (JString s) = [TString s]"
| "tokens_of (JArray es) = LBracket # sep (map tokens_of es) @ [RBracket]"
| "tokens_of (JObject ms) =
     LBrace # sep (map (\<lambda>m. TString (fst m) # Colon # tokens_of (snd m)) ms) @ [RBrace]"

fun distinct_keys :: "json \<Rightarrow> bool" where
  "distinct_keys (JArray es) = list_all distinct_keys es"
| "distinct_keys (JObject ms) = (distinct (map fst ms) \<and> list_all (\<lambda>m. distinct_keys (snd m)) ms)"
| "distinct_keys _ = True"

definition value_mode :: "mode \<Rightarrow> bool" where
  "value_mode m = (m = MValue \<or> m = MValueOrClose)"

definition key_mode :: "mode \<Rightarrow> bool" where
  "key_mode m = (m = MKey \<or> m = MKeyOrClose)"

subsection \<open>The code fence pattern of \<^verbatim>\<open>ClaudeAIProvider.extractContext\<close>\<close>

text \<open>
  The regular expression is three backquotes, \<^verbatim>\<open>json\<close> and a line feed; a
  group of one or more code units of any kind, as few as possible; a line feed and three
  backquotes. \<open>lazy_capture g s\<close> is the group when \<open>g\<close> is already taken and
  \<open>s\<close> is the text ahead: the group ends at the first place where the closing part
  follows, and grows by one code unit otherwise. \<open>match_at\<close> matches the pattern at
  the start of a text, and \<open>jsonMatch\<close> at the leftmost place where it matches, as
  \<^verbatim>\<open>String.prototype.match\<close> does; both give the group.
\<close>

definition fence_open :: js_string where
  "fence_open = js ''```json\<newline>''"

definition fence_close :: js_string where
  "fence_close = js ''\<newline>```''"

fun lazy_capture :: "js_string \<Rightarrow> js_string \<Rightarrow> js_string option" where
  "lazy_capture g [] = None"
| "lazy_capture g (c # cs) =
    (if prefix fence_close (c # cs) then Some g else lazy_capture (g @ [c]) cs)"

definition match_at :: "js_string \<Rightarrow> js_string option" where
  "match_at s =
    (if prefix fence_open s then
       (case drop (length fence_open) s of
          [] \<Rightarrow> None
        | c # cs \<Rightarrow> lazy_capture [c] cs)
     else None)"

fun jsonMatch :: "js_string \<Rightarrow> js_string option" where
  "jsonMatch [] = None"
| "jsonMatch (c # cs) =
    (case match_at (c # cs) of
       Some g \<Rightarrow> Some g
     | None \<Rightarrow> jsonMatch cs)"

text \<open>The text handed to \<^verbatim>\<open>JSON.parse\<close>: the group if the pattern matches.\<close>

definition jsonText :: "js_string \<Rightarrow> js_string" where
  "jsonText content_text =
    (case jsonMatch content_text of
       Some g \<Rightarrow> g
     | None \<Rightarrow> content_text)"

text \<open>
  Of a text that a fence follows: at none of its places does the opening part of the
  pattern stand, so that no match starts before the fence.
\<close>

fun opener_free :: "js_string \<Rightarrow> bool" where
  "opener_free [] = True"
| "opener_free (p # pre) = (\<not> prefix fence_open (p # pre @ fence_open) \<and> opener_free pre)"

subsection \<open>\<^verbatim>\<open>extractContext\<close> of the providers\<close>

text \<open>
  The argument is how the backend request settled: rejected, or fulfilled with the
  response. Of a Claude response the list of content blocks matters, each a text block
  or a block of another type; of an OpenAI response the list of choices, each with its
  message content, a string or \<^verbatim>\<open>null\<close>. Reading the first element of an empty
  list throws.
\<close>

datatype content_block = TextBlock js_string | OtherBlock

definition ClaudeAIProvider_extractContext ::
  "provider_error + content_block list \<Rightarrow> provider_error + json" where
  "ClaudeAIProvider_extractContext response =
    (case response of
       Inl e \<Rightarrow> Inl e
     | Inr [] \<Rightarrow> Inl MalformedResponse
     | Inr (OtherBlock # bs) \<Rightarrow> Inl MalformedResponse
     | Inr (TextBlock t # bs) \<Rightarrow>
         (case JSON_parse (jsonText t) of
            None \<Rightarrow> Inl MalformedResponse
          | Some v \<Rightarrow> Inr v))"

text \<open>\<^verbatim>\<open>content || '{}'\<close>: \<^verbatim>\<open>null\<close> and the empty string are falsy.\<close>

definition content_or_empty_object :: "js_string option \<Rightarrow> js_string" where
  "content_or_empty_object content =
    (case content of
       None \<Rightarrow> js ''{}''
     | Some t \<Rightarrow> if t \<noteq> [] then t else js ''{}'')"

definition OpenAIProvider_extractContext ::
  "provider_error + js_string option list \<Rightarrow> provider_error + json" where
  "OpenAIProvider_extractContext response =
    (case response of
       Inl e \<Rightarrow> Inl e
     | Inr [] \<Rightarrow> Inl MalformedResponse
     | Inr (content # cs) \<Rightarrow>
         (case JSON_parse (content_or_empty_object content) of
            None \<Rightarrow> Inl MalformedResponse
          | Some v \<Rightarrow> Inr v))"

subsection \<open>The shape of \<^verbatim>\<open>interface ContextExtractionResult\<close>\<close>

text \<open>
  The interface read as a check on a JSON value: an object with the twelve fields, each
  of its declared type. The source has no such check; it is defined here to say what a
  returned value can fail to be.
\<close>

fun is_string :: "json \<Rightarrow> bool" where
  "is_string (JString s) = True"
| "is_string _ = False"

fun is_number :: "json \<Rightarrow> bool" where
  "is_number (JNumber n) = True"
| "is_number _ = False"

fun is_string_array :: "json \<Rightarrow> bool" where
  "is_string_array (JArray es) = list_all is_string es"
| "is_string_array _ = False"

fun is_sentiment :: "json \<Rightarrow> bool" where
  "is_sentiment (JString s) = (s = js ''positive'' \<or> s = js ''negative'' \<or> s = js ''neutral'')"
| "is_sentiment _ = False"

definition has_field :: "(js_string \<times> json) list \<Rightarrow> string \<Rightarrow> (json \<Rightarrow> bool) \<Rightarrow> bool" where
  "has_field ms name ok = (case map_of ms (js name) of None \<Rightarrow> False | Some v \<Rightarrow> ok v)"

fun is_ContextExtractionResult :: "json \<Rightarrow> bool" where
  "is_ContextExtractionResult (JObject ms) =
    (has_field ms ''summary'' is_string \<and>
     has_field ms ''title'' is_string \<and>
     has_field ms ''tags'' is_string_array \<and>
     has_field ms ''people'' is_string_array \<and>
     has_field ms ''places'' is_string_array \<and>
     has_field ms ''dates'' is_string_array \<and>
     has_field ms ''tasks'' is_string_array \<and>
     has_field ms ''emotions'' is_string_array \<and>
     has_field ms ''priority'' is_number \<and>
     has_field ms ''category'' is_string \<and>
     has_field ms ''sentiment'' is_sentiment \<and>
     has_field ms ''confidence'' is_number)"
| "is_ContextExtractionResult _ = False"

subsection \<open>Where strings lie in a text\<close>

text \<open>
  A reading of a text that only follows its string literals: outside of them, inside,
  or just after a backslash inside. \<open>scan\<close> holds when no backquote stands outside
  a string literal and no code unit below \<open>0x20\<close> inside one. It serves the proofs
  about the code fence.
\<close>

datatype scan_state = Outside | Inside | Escaped

fun scan :: "scan_state \<Rightarrow> js_string \<Rightarrow> bool" where
  "scan q [] = True"
| "scan Outside (c # cs) = (c \<noteq> 0x60 \<and> scan (if c = 0x22 then Inside else Outside) cs)"
| "scan Inside (c # cs) =
    (0x20 \<le> c \<and> scan (if c = 0x22 then Outside else if c = 0x5C then Escaped else Inside) cs)"
| "scan Escaped (c # cs) = (0x20 \<le> c \<and> scan Inside cs)"

definition quiet :: "code_unit \<Rightarrow> bool" where
  "quiet c = (c \<noteq> 0x60 \<and> c \<noteq> 0x22)"

section \<open>The orchestrator\<close>

subsection \<open>Backends and the trace of provider calls\<close>

text \<open>
  The orchestrator builds its three providers itself, so what its operations do is a
  function of how the backends answer. For context extraction the backends are the two
  requests \<^verbatim>\<open>client.messages.create\<close> and
  \<^verbatim>\<open>client.chat.completions.create\<close>, and the provider methods are those
  of the previous section applied to what the request settled with. For transcription
  the backends are given by the outcome of the provider's \<^verbatim>\<open>transcribe\<close>.
  Every operation returns, with its own outcome, the list of provider methods it
  invoked, in the order of invocation.
\<close>

record backends =
  claude_messages_create :: "js_string \<Rightarrow> provider_error + content_block list"
  openai_chat_completions_create :: "js_string \<Rightarrow> provider_error + js_string option list"
  kimi_transcribe :: "js_string \<Rightarrow> provider_error + TranscriptionResult"
  openai_transcribe :: "js_string \<Rightarrow> provider_error + TranscriptionResult"

text \<open>\<^verbatim>\<open>this.claude.extractContext(text)\<close> and \<^verbatim>\<open>this.openai.extractContext(text)\<close>.\<close>

definition claude_extractContext :: "backends \<Rightarrow> js_string \<Rightarrow> provider_error + json" where
  "claude_extractContext env input =
    ClaudeAIProvider_extractContext (claude_messages_create env input)"

definition openai_extractContext :: "backends \<Rightarrow> js_string \<Rightarrow> provider_error + json" where
  "openai_extractContext env input =
    OpenAIProvider_extractContext (openai_chat_completions_create env input)"

datatype operation = ExtractContext | Transcribe

datatype call = Call AIProvider operation js_string

record AIOrchestrator =
  preferredProvider :: AIProvider

text \<open>A provider's promise returned as the operation's own: same value, same rejection.\<close>

fun passthrough :: "provider_error + 'a \<Rightarrow> orchestrator_error + 'a" where
  "passthrough (Inl e) = Inl (ProviderFailure e)"
| "passthrough (Inr v) = Inr v"

subsection \<open>\<^verbatim>\<open>selectProvider\<close>\<close>

definition capabilityMap :: "(AICapability \<times> AIProvider) list" where
  "capabilityMap =
    [(TRANSCRIPTION, KIMI),
     (CONTEXT_EXTRACTION, CLAUDE),
     (SUMMARIZATION, CLAUDE),
     (SEARCH, KIMI),
     (TRANSLATION, KIMI),
     (CODE_ANALYSIS, KIMI),
     (CREATIVE, OPENAI),
     (CONVERSATION, OPENAI)]"

text \<open>
  \<^verbatim>\<open>a || b\<close> on an optional provider: \<^verbatim>\<open>undefined\<close> and the empty
  string are falsy, every other string is truthy.
\<close>

definition provider_or :: "AIProvider option \<Rightarrow> AIProvider \<Rightarrow> AIProvider" where
  "provider_or a b =
    (case a of
       None \<Rightarrow> b
     | Some p \<Rightarrow> if AIProvider_str p \<noteq> [] then p else b)"

definition selectProvider ::
  "AIOrchestrator \<Rightarrow> AICapability \<Rightarrow> AIProvider option \<Rightarrow> AIProvider" where
  "selectProvider this capability userPreference =
    provider_or userPreference
      (provider_or (map_of capabilityMap capability) (preferredProvider this))"

subsection \<open>\<^verbatim>\<open>getCapabilities\<close>\<close>

text \<open>The capability list each provider class returns.\<close>

fun getCapabilities :: "AIProvider \<Rightarrow> AICapability list" where
  "getCapabilities CLAUDE = [CONTEXT_EXTRACTION, SUMMARIZATION, CONVERSATION, CODE_ANALYSIS]"
| "getCapabilities KIMI =
     [TRANSCRIPTION, TRANSLATION, CODE_ANALYSIS, SEARCH, CONTEXT_EXTRACTION]"
| "getCapabilities OPENAI =
     [TRANSCRIPTION, CONTEXT_EXTRACTION, CREATIVE, CONVERSATION, SUMMARIZATION]"

subsection \<open>\<^verbatim>\<open>transcribeAudio\<close>\<close>

definition transcribeAudio ::
  "backends \<Rightarrow> AIOrchestrator \<Rightarrow> js_string \<Rightarrow> AIProvider option \<Rightarrow>
     call list \<times> (orchestrator_error + TranscriptionResult)" where
  "transcribeAudio env this audioUrl provider =
    (let selectedProvider = provider_or provider (selectProvider this TRANSCRIPTION None)
     in case selectedProvider of
          KIMI \<Rightarrow> ([Call KIMI Transcribe audioUrl], passthrough (kimi_transcribe env audioUrl))
        | OPENAI \<Rightarrow>
            ([Call OPENAI Transcribe audioUrl], passthrough (openai_transcribe env audioUrl))
        | _ \<Rightarrow>
            ([Call OPENAI Transcribe audioUrl], passthrough (openai_transcribe env audioUrl)))"

subsection \<open>\<^verbatim>\<open>fuseContextResults\<close>\<close>

text \<open>
  \<^verbatim>\<open>[...new Set(xs)]\<close>: the constructor adds the elements of \<open>xs\<close> one by
  one, an element already in the set is not added again, and the set is read back in
  insertion order. Strings are compared code unit by code unit.
\<close>

definition Set_add :: "'a list \<Rightarrow> 'a \<Rightarrow> 'a list" where
  "Set_add s x = (if x \<in> set s then s else s @ [x])"

definition new_Set :: "'a list \<Rightarrow> 'a list" where
  "new_Set xs = foldl Set_add [] xs"

text \<open>
  \<^verbatim>\<open>null\<close> is \<open>None\<close>. With both arguments \<^verbatim>\<open>null\<close> the first line
  returns the second argument, that is \<^verbatim>\<open>null\<close>.
\<close>

fun fuseContextResults ::
  "ContextExtractionResult option \<Rightarrow> ContextExtractionResult option \<Rightarrow>
     ContextExtractionResult option" where
  "fuseContextResults None openai = openai"
| "fuseContextResults (Some claude) None = Some claude"
| "fuseContextResults (Some claude) (Some openai) =
    (let allTags = new_Set (tags claude @ tags openai);
         allPeople = new_Set (people claude @ people openai);
         allPlaces = new_Set (places claude @ places openai)
     in Some \<lparr>
          summary = summary claude,
          title = (if title openai \<noteq> [] then title openai else title claude),
          tags = take 10 allTags,
          people = allPeople,
          places = allPlaces,
          dates = new_Set (dates claude @ dates openai),
          tasks = new_Set (tasks claude @ tasks openai),
          emotions = new_Set (emotions claude @ emotions openai),
          priority = max (priority claude) (priority openai),
          category = category claude,
          sentiment = sentiment claude,
          confidence = (confidence claude + confidence openai) / 2
        \<rparr>)"

subsection \<open>\<^verbatim>\<open>fuseContextResults\<close> on the values of a run\<close>

text \<open>
  The function above is \<^verbatim>\<open>fuseContextResults\<close> at its declared type. In a
  run its arguments are the values the providers returned, any JSON value, or
  \<^verbatim>\<open>null\<close> for a rejected call. \<^verbatim>\<open>!v\<close> tests truthiness:
  \<^verbatim>\<open>null\<close>, \<^verbatim>\<open>false\<close>, zero and the empty string are falsy, every
  other JSON value is truthy.
\<close>

fun truthy :: "json \<Rightarrow> bool" where
  "truthy JNull = False"
| "truthy (JBool b) = b"
| "truthy (JNumber n) = (n \<noteq> 0)"
| "truthy (JString s) = (s \<noteq> [])"
| "truthy (JArray es) = True"
| "truthy (JObject ms) = True"

text \<open>
  \<^verbatim>\<open>v.name\<close> for a truthy value and one of the twelve field names: the member
  of an object, and \<^verbatim>\<open>undefined\<close> (\<open>None\<close>) when the object has no such
  member or the value is not an object.
\<close>

fun property :: "json \<Rightarrow> string \<Rightarrow> json option" where
  "property (JObject ms) name = map_of ms (js name)"
| "property v name = None"

text \<open>
  \<^verbatim>\<open>[...x]\<close> throws a \<^verbatim>\<open>TypeError\<close> unless \<open>x\<close> is iterable: of
  the JSON values and \<^verbatim>\<open>undefined\<close>, arrays and strings are. The function
  spreads the six list fields of both arguments.
\<close>

fun iterable :: "json option \<Rightarrow> bool" where
  "iterable (Some (JArray es)) = True"
| "iterable (Some (JString s)) = True"
| "iterable v = False"

definition spreads :: "json \<Rightarrow> bool" where
  "spreads v =
    (iterable (property v ''tags'') \<and> iterable (property v ''people'') \<and>
     iterable (property v ''places'') \<and> iterable (property v ''dates'') \<and>
     iterable (property v ''tasks'') \<and> iterable (property v ''emotions''))"

text \<open>A value of the declared shape, read as the record, and a record as a value.\<close>

fun string_of :: "json option \<Rightarrow> js_string" where
  "string_of (Some (JString s)) = s"
| "string_of v = []"

fun number_of :: "json option \<Rightarrow> real" where
  "number_of (Some (JNumber n)) = n"
| "number_of v = 0"

fun strings_of :: "json option \<Rightarrow> js_string list" where
  "strings_of (Some (JArray es)) = map (\<lambda>e. string_of (Some e)) es"
| "strings_of v = []"

fun Sentiment_str :: "Sentiment \<Rightarrow> js_string" where
  "Sentiment_str Positive = js ''positive''"
| "Sentiment_str Negative = js ''negative''"
| "Sentiment_str Neutral = js ''neutral''"

definition sentiment_of :: "json option \<Rightarrow> Sentiment" where
  "sentiment_of v =
    (if string_of v = js ''positive'' then Positive
     else if string_of v = js ''negative'' then Negative
     else Neutral)"

definition as_ContextExtractionResult :: "json \<Rightarrow> ContextExtractionResult option" where
  "as_ContextExtractionResult v =
    (if is_ContextExtractionResult v then
       Some \<lparr>
         summary = string_of (property v ''summary''),
         title = string_of (property v ''title''),
         tags = strings_of (property v ''tags''),
         people = strings_of (property v ''people''),
         places = strings_of (property v ''places''),
         dates = strings_of (property v ''dates''),
         tasks = strings_of (property v ''tasks''),
         emotions = strings_of (property v ''emotions''),
         priority = number_of (property v ''priority''),
         category = string_of (property v ''category''),
         sentiment = sentiment_of (property v ''sentiment''),
         confidence = number_of (property v ''confidence'')
       \<rparr>
     else None)"

definition to_json :: "ContextExtractionResult \<Rightarrow> json" where
  "to_json r =
    JObject
      [(js ''summary'', JString (summary r)),
       (js ''title'', JString (title r)),
       (js ''tags'', JArray (map JString (tags r))),
       (js ''people'', JArray (map JString (people r))),
       (js ''places'', JArray (map JString (places r))),
       (js ''dates'', JArray (map JString (dates r))),
       (js ''tasks'', JArray (map JString (tasks r))),
       (js ''emotions'', JArray (map JString (emotions r))),
       (js ''priority'', JNumber (priority r)),
       (js ''category'', JString (category r)),
       (js ''sentiment'', JString (Sentiment_str (sentiment r))),
       (js ''confidence'', JNumber (confidence r))]"

text \<open>
  What the operation returns: a JSON value, or the object that the literal at the end of
  \<^verbatim>\<open>fuseContextResults\<close> builds from two truthy values of which one is not of
  the declared shape. The fields of that object follow from JavaScript's conversions of
  the ill-typed fields (to number, to string); they are not computed here, and
  \<open>CoercedFusion\<close> names the object by the two values it is built from.
\<close>

datatype returned = Value json | CoercedFusion json json

text \<open>
  The two early returns; then the spreads, which throw when a list field is not iterable;
  then the object literal, which for two values of the declared shape is the fusion
  above.
\<close>

definition fuse_values :: "json \<Rightarrow> json \<Rightarrow> orchestrator_error + returned" where
  "fuse_values claude openai =
    (if \<not> truthy claude then Inr (Value openai)
     else if \<not> truthy openai then Inr (Value claude)
     else if \<not> (spreads claude \<and> spreads openai) then Inl SpreadTypeError
     else
       (case (as_ContextExtractionResult claude, as_ContextExtractionResult openai) of
          (Some a, Some b) \<Rightarrow>
            (case fuseContextResults (Some a) (Some b) of
               Some r \<Rightarrow> Inr (Value (to_json r))
             | None \<Rightarrow> Inr (Value JNull))
        | _ \<Rightarrow> Inr (CoercedFusion claude openai)))"

subsection \<open>\<^verbatim>\<open>extractContext\<close> of the orchestrator\<close>

text \<open>
  \<^verbatim>\<open>Promise.allSettled\<close> starts both provider calls and waits for both; a
  fulfilled outcome contributes its value, a rejected one \<^verbatim>\<open>null\<close>. The test
  before the throw is \<^verbatim>\<open>!claudeData && !openaiData\<close>.
\<close>

fun settled_value :: "provider_error + json \<Rightarrow> json" where
  "settled_value (Inr v) = v"
| "settled_value (Inl e) = JNull"

definition extractContext ::
  "backends \<Rightarrow> js_string \<Rightarrow> bool \<Rightarrow> call list \<times> (orchestrator_error + returned)" where
  "extractContext env input useEnsemble =
    (if \<not> useEnsemble then
       ([Call CLAUDE ExtractContext input],
        passthrough (map_sum id Value (claude_extractContext env input)))
     else
       let claudeResult = claude_extractContext env input;
           openaiResult = openai_extractContext env input;
           claudeData = settled_value claudeResult;
           openaiData = settled_value openaiResult
       in ([Call CLAUDE ExtractContext input, Call OPENAI ExtractContext input],
           if \<not> truthy claudeData \<and> \<not> truthy openaiData then Inl AllProvidersFailed
           else fuse_values claudeData openaiData))"

text \<open>A provider call that gives the ensemble nothing: rejected, or fulfilled with a falsy value.\<close>

definition no_value :: "provider_error + json \<Rightarrow> bool" where
  "no_value r = (case r of Inl e \<Rightarrow> True | Inr v \<Rightarrow> \<not> truthy v)"

text \<open>
  Backends for examples: each of the two extraction requests is rejected, or answers
  with one text (a text block, a message content); transcription is unavailable.
\<close>

definition scripted_backends ::
  "provider_error + js_string \<Rightarrow> provider_error + js_string \<Rightarrow> backends" where
  "scripted_backends claude_answer openai_answer =
    \<lparr>claude_messages_create = (\<lambda>input. map_sum id (\<lambda>t. [TextBlock t]) claude_answer),
     openai_chat_completions_create = (\<lambda>input. map_sum id (\<lambda>t. [Some t]) openai_answer),
     kimi_transcribe = (\<lambda>audioUrl. Inl ProviderUnavailable),
     openai_transcribe = (\<lambda>audioUrl. Inl ProviderUnavailable)\<rparr>"

subsection \<open>The deduplicated union, as the specification words it\<close>

text \<open>
  The specification's reading of "deduplicated, in the order produced by concatenating
  first-then-second": every entry is kept once, at the place of its first occurrence.
  This definition is independent of \<open>new_Set\<close> and is compared with it below.
\<close>

fun first_occurrences :: "'a list \<Rightarrow> 'a list" where
  "first_occurrences [] = []"
| "first_occurrences (x # xs) = x # first_occurrences (filter (\<lambda>y. y \<noteq> x) xs)"

section \<open>Properties of the router\<close>

lemma AIProvider_str_truthy: "AIProvider_str p \<noteq> []"
  by (cases p) (simp_all add: js_def)

lemma provider_or_Some: "provider_or (Some p) q = p"
  by (simp add: provider_or_def AIProvider_str_truthy)

lemma provider_or_None: "provider_or None q = q"
  by (simp add: provider_or_def)

text \<open>
  C5. With no override, \<open>selectProvider\<close> returns the provider of the routing table for
  each of the eight capabilities, whatever the orchestrator's preferred provider:
  kimi for transcription, search, translation and code analysis, claude for context
  extraction and summarization, openai for creative and conversation. It is a total
  function of its arguments.
\<close>

theorem selectProvider_table:
  "selectProvider this TRANSCRIPTION None = KIMI \<and>
   selectProvider this SEARCH None = KIMI \<and>
   selectProvider this TRANSLATION None = KIMI \<and>
   selectProvider this CODE_ANALYSIS None = KIMI \<and>
   selectProvider this CONTEXT_EXTRACTION None = CLAUDE \<and>
   selectProvider this SUMMARIZATION None = CLAUDE \<and>
   selectProvider this CREATIVE None = OPENAI \<and>
   selectProvider this CONVERSATION None = OPENAI"
  by (simp add: selectProvider_def capabilityMap_def provider_or_Some provider_or_None)

text \<open>
  C6. A supplied override is returned for every capability, also where the routing
  table names another provider. (Every member of the enumeration is a non-empty string.)
\<close>

theorem selectProvider_override:
  "selectProvider this capability (Some override) = override"
  by (simp add: selectProvider_def provider_or_Some)

section \<open>Properties of the orchestrator's dispatch\<close>

text \<open>
  C10. A transcription request whose provider override is claude, a provider whose
  capability list has no transcription, takes the default branch of the switch: the one
  provider method invoked is openai's transcribe, its outcome is the operation's outcome
  (so the operation never fails with UnsupportedCapability), and the request is served
  exactly as one whose override is openai.
\<close>

theorem transcribeAudio_claude_override:
  "TRANSCRIPTION \<notin> set (getCapabilities CLAUDE) \<and>
   transcribeAudio env this audioUrl (Some CLAUDE) =
     ([Call OPENAI Transcribe audioUrl],
      case openai_transcribe env audioUrl of
        Inl e \<Rightarrow> Inl (ProviderFailure e)
      | Inr r \<Rightarrow> Inr r) \<and>
   snd (transcribeAudio env this audioUrl (Some CLAUDE)) \<noteq> Inl UnsupportedCapability \<and>
   transcribeAudio env this audioUrl (Some CLAUDE) =
     transcribeAudio env this audioUrl (Some OPENAI)"
  by (simp add: transcribeAudio_def provider_or_Some split: sum.split)

text \<open>For comparison: an override of kimi or of openai reaches the named provider.\<close>

lemma transcribeAudio_other_overrides:
  "fst (transcribeAudio env this audioUrl (Some KIMI)) = [Call KIMI Transcribe audioUrl] \<and>
   fst (transcribeAudio env this audioUrl (Some OPENAI)) = [Call OPENAI Transcribe audioUrl] \<and>
   fst (transcribeAudio env this audioUrl None) = [Call KIMI Transcribe audioUrl]"
  by (simp add: transcribeAudio_def provider_or_Some provider_or_None selectProvider_def
      capabilityMap_def)

text \<open>
  C7. Without the ensemble, context extraction invokes claude's extractContext and
  nothing else, and settles as that call does: with its value, whatever it is, or with
  its failure passed on, which is never AllProvidersFailed.
\<close>

theorem extractContext_single:
  "extractContext env input False =
     ([Call CLAUDE ExtractContext input],
      case claude_extractContext env input of
        Inl e \<Rightarrow> Inl (ProviderFailure e)
      | Inr a \<Rightarrow> Inr (Value a)) \<and>
   snd (extractContext env input False) \<noteq> Inl AllProvidersFailed"
  by (simp add: extractContext_def split: sum.split)

subsection \<open>The ensemble\<close>

lemma shape_truthy: "is_ContextExtractionResult v \<Longrightarrow> truthy v"
  by (cases v) simp_all

lemma settled_value_falsy: "no_value r \<Longrightarrow> \<not> truthy (settled_value r)"
  by (cases r) (simp_all add: no_value_def)

lemma fuse_values_left_falsy: "\<not> truthy c \<Longrightarrow> fuse_values c v = Inr (Value v)"
  by (simp add: fuse_values_def)

lemma fuse_values_right_falsy:
  "truthy v \<Longrightarrow> \<not> truthy o' \<Longrightarrow> fuse_values v o' = Inr (Value v)"
  by (simp add: fuse_values_def)

lemma ensemble_snd:
  "snd (extractContext env input True) =
     (if \<not> truthy (settled_value (claude_extractContext env input)) \<and>
         \<not> truthy (settled_value (openai_extractContext env input))
      then Inl AllProvidersFailed
      else fuse_values (settled_value (claude_extractContext env input))
             (settled_value (openai_extractContext env input)))"
  by (simp add: extractContext_def Let_def)

lemma scripted_claude:
  "claude_extractContext (scripted_backends c o') input =
     ClaudeAIProvider_extractContext (map_sum id (\<lambda>t. [TextBlock t]) c)"
  by (simp add: claude_extractContext_def scripted_backends_def)

lemma scripted_openai:
  "openai_extractContext (scripted_backends c o') input =
     OpenAIProvider_extractContext (map_sum id (\<lambda>t. [Some t]) o')"
  by (simp add: openai_extractContext_def scripted_backends_def)

text \<open>
  C1, as stated, fails: the ensemble does not ask whether a call succeeded but whether
  its value is truthy. When the Claude backend answers with the text \<^verbatim>\<open>null\<close>,
  claude's extractContext succeeds, with the value \<^verbatim>\<open>null\<close>; when openai's
  request is rejected besides, exactly one call has succeeded, and the operation fails
  with AllProvidersFailed.
\<close>

theorem fulfilled_falsy_counterexample:
  "claude_extractContext (scripted_backends (Inr (js ''null'')) (Inl ProviderUnavailable))
     (js ''note'') = Inr JNull \<and>
   openai_extractContext (scripted_backends (Inr (js ''null'')) (Inl ProviderUnavailable))
     (js ''note'') = Inl ProviderUnavailable \<and>
   snd (extractContext (scripted_backends (Inr (js ''null'')) (Inl ProviderUnavailable))
     (js ''note'') True) = Inl AllProvidersFailed"
proof -
  have "ClaudeAIProvider_extractContext (Inr [TextBlock (js ''null'')]) = Inr JNull"
    by code_simp
  moreover have "OpenAIProvider_extractContext (Inl ProviderUnavailable) = Inl ProviderUnavailable"
    by (simp add: OpenAIProvider_extractContext_def)
  ultimately show ?thesis
    by (simp add: scripted_claude scripted_openai ensemble_snd)
qed

text \<open>
  C1, amended. With the ensemble, context extraction invokes claude's and openai's
  extractContext, both. A call gives a value when it succeeds with a truthy value, as
  every value of the shape of a ContextExtractionResult is; it gives none when it fails
  or succeeds with a falsy value (\<^verbatim>\<open>null\<close>, \<^verbatim>\<open>false\<close>, zero, the
  empty string). If neither call gives a value, in particular if both fail, the
  operation fails with AllProvidersFailed. If exactly one call gives a value, the
  operation returns that value as it is, whichever of the two calls gave none. If both
  give a value, the operation settles as the fusion of the two values does.
\<close>

theorem extractContext_ensemble_truthy:
  "fst (extractContext env input True) =
     [Call CLAUDE ExtractContext input, Call OPENAI ExtractContext input] \<and>
   (claude_extractContext env input = Inl e1 \<and> openai_extractContext env input = Inl e2 \<longrightarrow>
      snd (extractContext env input True) = Inl AllProvidersFailed) \<and>
   (no_value (claude_extractContext env input) \<and> no_value (openai_extractContext env input) \<longrightarrow>
      snd (extractContext env input True) = Inl AllProvidersFailed) \<and>
   (claude_extractContext env input = Inr a \<and> truthy a \<and>
      no_value (openai_extractContext env input) \<longrightarrow>
      snd (extractContext env input True) = Inr (Value a)) \<and>
   (no_value (claude_extractContext env input) \<and>
      openai_extractContext env input = Inr b \<and> truthy b \<longrightarrow>
      snd (extractContext env input True) = Inr (Value b)) \<and>
   (claude_extractContext env input = Inr a \<and> truthy a \<and>
      openai_extractContext env input = Inr b \<and> truthy b \<longrightarrow>
      snd (extractContext env input True) = fuse_values a b) \<and>
   (is_ContextExtractionResult a \<longrightarrow> truthy a)"
proof (intro conjI impI)
  show "fst (extractContext env input True) =
      [Call CLAUDE ExtractContext input, Call OPENAI ExtractContext input]"
    by (simp add: extractContext_def Let_def)
next
  assume "claude_extractContext env input = Inl e1 \<and> openai_extractContext env input = Inl e2"
  then show "snd (extractContext env input True) = Inl AllProvidersFailed"
    by (simp add: ensemble_snd)
next
  assume "no_value (claude_extractContext env input) \<and> no_value (openai_extractContext env input)"
  then show "snd (extractContext env input True) = Inl AllProvidersFailed"
    by (simp add: ensemble_snd settled_value_falsy)
next
  assume h: "claude_extractContext env input = Inr a \<and> truthy a \<and>
      no_value (openai_extractContext env input)"
  then have "\<not> truthy (settled_value (openai_extractContext env input))"
    by (simp add: settled_value_falsy)
  with h show "snd (extractContext env input True) = Inr (Value a)"
    by (simp add: ensemble_snd fuse_values_right_falsy)
next
  assume h: "no_value (claude_extractContext env input) \<and>
      openai_extractContext env input = Inr b \<and> truthy b"
  then have "\<not> truthy (settled_value (claude_extractContext env input))"
    by (simp add: settled_value_falsy)
  with h show "snd (extractContext env input True) = Inr (Value b)"
    by (simp add: ensemble_snd fuse_values_left_falsy)
next
  assume "claude_extractContext env input = Inr a \<and> truthy a \<and>
      openai_extractContext env input = Inr b \<and> truthy b"
  then show "snd (extractContext env input True) = fuse_values a b"
    by (simp add: ensemble_snd)
next
  assume "is_ContextExtractionResult a"
  then show "truthy a" by (rule shape_truthy)
qed

theorem extractContext_ensemble_truthy_witness:
  "snd (extractContext (scripted_backends (Inl ProviderUnavailable) (Inl ProviderUnavailable))
          (js ''note'') True) = Inl AllProvidersFailed \<and>
   snd (extractContext (scripted_backends (Inr (js ''{\"title\": \"T\"}'')) (Inl ProviderUnavailable))
          (js ''note'') True) = Inr (Value (JObject [(js ''title'', JString (js ''T''))])) \<and>
   snd (extractContext (scripted_backends (Inr (js ''0'')) (Inr (js ''{\"title\": \"T\"}'')))
          (js ''note'') True) = Inr (Value (JObject [(js ''title'', JString (js ''T''))])) \<and>
   snd (extractContext (scripted_backends (Inr (js ''[1]'')) (Inr (js ''{\"title\": \"T\"}'')))
          (js ''note'') True) = Inl SpreadTypeError"
proof -
  let ?obj = "JObject [(js ''title'', JString (js ''T''))]"
  let ?arr = "JArray [JNumber 1]"
  let ?e1 = "scripted_backends (Inl ProviderUnavailable) (Inl ProviderUnavailable)"
  let ?e2 = "scripted_backends (Inr (js ''{\"title\": \"T\"}'')) (Inl ProviderUnavailable)"
  let ?e3 = "scripted_backends (Inr (js ''0'')) (Inr (js ''{\"title\": \"T\"}''))"
  let ?e4 = "scripted_backends (Inr (js ''[1]'')) (Inr (js ''{\"title\": \"T\"}''))"
  have c: "ClaudeAIProvider_extractContext (Inr [TextBlock (js ''{\"title\": \"T\"}'')]) = Inr ?obj"
    "OpenAIProvider_extractContext (Inr [Some (js ''{\"title\": \"T\"}'')]) = Inr ?obj"
    "ClaudeAIProvider_extractContext (Inr [TextBlock (js ''0'')]) = Inr (JNumber 0)"
    "ClaudeAIProvider_extractContext (Inr [TextBlock (js ''[1]'')]) = Inr ?arr"
    by code_simp+
  have r: "ClaudeAIProvider_extractContext (Inl ProviderUnavailable) = Inl ProviderUnavailable"
    "OpenAIProvider_extractContext (Inl ProviderUnavailable) = Inl ProviderUnavailable"
    by (simp_all add: ClaudeAIProvider_extractContext_def OpenAIProvider_extractContext_def)
  have h1: "claude_extractContext ?e1 (js ''note'') = Inl ProviderUnavailable \<and>
      openai_extractContext ?e1 (js ''note'') = Inl ProviderUnavailable"
    by (simp add: scripted_claude scripted_openai r)
  have h2: "claude_extractContext ?e2 (js ''note'') = Inr ?obj \<and> truthy ?obj \<and>
      no_value (openai_extractContext ?e2 (js ''note''))"
    by (simp add: scripted_claude scripted_openai r c no_value_def)
  have h3: "no_value (claude_extractContext ?e3 (js ''note'')) \<and>
      openai_extractContext ?e3 (js ''note'') = Inr ?obj \<and> truthy ?obj"
    by (simp add: scripted_claude scripted_openai c no_value_def)
  have h4: "claude_extractContext ?e4 (js ''note'') = Inr ?arr \<and> truthy ?arr \<and>
      openai_extractContext ?e4 (js ''note'') = Inr ?obj \<and> truthy ?obj"
    by (simp add: scripted_claude scripted_openai c)
  have f4: "fuse_values ?arr ?obj = Inl SpreadTypeError"
    by (simp add: fuse_values_def spreads_def)
  from h1
    extractContext_ensemble_truthy
      [of ?e1 "js ''note''" ProviderUnavailable ProviderUnavailable JNull JNull]
  have a1: "snd (extractContext ?e1 (js ''note'') True) = Inl AllProvidersFailed" by blast
  from h2
    extractContext_ensemble_truthy
      [of ?e2 "js ''note''" ProviderUnavailable ProviderUnavailable ?obj JNull]
  have a2: "snd (extractContext ?e2 (js ''note'') True) = Inr (Value ?obj)" by blast
  from h3
    extractContext_ensemble_truthy
      [of ?e3 "js ''note''" ProviderUnavailable ProviderUnavailable JNull ?obj]
  have a3: "snd (extractContext ?e3 (js ''note'') True) = Inr (Value ?obj)" by blast
  from h4
    extractContext_ensemble_truthy
      [of ?e4 "js ''note''" ProviderUnavailable ProviderUnavailable ?arr ?obj]
  have a4: "snd (extractContext ?e4 (js ''note'') True) = fuse_values ?arr ?obj" by blast
  from a1 a2 a3 a4 f4 show ?thesis by simp
qed

section \<open>Properties of the fusion\<close>

lemma set_first_occurrences: "set (first_occurrences xs) = set xs"
  by (induction xs rule: first_occurrences.induct) auto

lemma distinct_first_occurrences: "distinct (first_occurrences xs)"
  by (induction xs rule: first_occurrences.induct) (auto simp: set_first_occurrences)

lemma first_occurrences_distinct_id: "distinct xs \<Longrightarrow> first_occurrences xs = xs"
proof (induction xs)
  case Nil
  show ?case by simp
next
  case (Cons x xs)
  then have "filter (\<lambda>y. y \<noteq> x) xs = xs"
    by (auto intro: filter_True)
  with Cons show ?case by simp
qed

text \<open>It keeps the order of the list, and is the library's deduplication read from the left.\<close>

lemma subseq_first_occurrences: "subseq (first_occurrences xs) xs"
proof (induction xs rule: first_occurrences.induct)
  case 1
  show ?case by simp
next
  case (2 x xs)
  have "subseq (filter (\<lambda>y. y \<noteq> x) xs) xs" by simp
  with 2 have "subseq (first_occurrences (filter (\<lambda>y. y \<noteq> x) xs)) xs"
    by (rule subseq_order.order_trans)
  then show ?case by simp
qed

lemma remdups_snoc: "remdups (ys @ [x]) = remdups (filter (\<lambda>y. y \<noteq> x) ys) @ [x]"
  by (induction ys) auto

lemma first_occurrences_remdups: "first_occurrences xs = rev (remdups (rev xs))"
proof (induction xs rule: first_occurrences.induct)
  case 1
  show ?case by simp
next
  case (2 x xs)
  then show ?case by (simp add: remdups_snoc rev_filter)
qed

text \<open>The loop of the \<^verbatim>\<open>Set\<close> constructor, started from any set built so far.\<close>

lemma foldl_Set_add:
  "foldl Set_add acc xs = acc @ first_occurrences (filter (\<lambda>x. x \<notin> set acc) xs)"
proof (induction xs arbitrary: acc)
  case Nil
  show ?case by simp
next
  case (Cons x xs)
  show ?case
  proof (cases "x \<in> set acc")
    case True
    then show ?thesis
      using Cons [of acc] by (simp add: Set_add_def)
  next
    case False
    have "filter (\<lambda>y. y \<notin> set (acc @ [x])) xs =
          filter (\<lambda>y. y \<noteq> x) (filter (\<lambda>y. y \<notin> set acc) xs)"
      by (induction xs) auto
    with False show ?thesis
      using Cons [of "acc @ [x]"] by (simp add: Set_add_def)
  qed
qed

lemma new_Set_first_occurrences: "new_Set xs = first_occurrences xs"
  by (simp add: new_Set_def foldl_Set_add)

text \<open>
  C2. For two present results A (first) and B (second) the fusion returns a result whose
  tags are the first ten entries of the deduplicated concatenation of A's and B's tags
  (so they hold no entry twice and are at most ten), and whose people, places, dates,
  tasks and emotions are the whole deduplicated concatenation of the corresponding
  fields: no entry twice, and exactly the entries of A and of B. Entries are compared as
  exact strings.
\<close>

theorem fuse_list_fields:
  "\<exists>r. fuseContextResults (Some A) (Some B) = Some r \<and>
     tags r = take 10 (first_occurrences (tags A @ tags B)) \<and>
     distinct (tags r) \<and> length (tags r) \<le> 10 \<and>
     people r = first_occurrences (people A @ people B) \<and>
     places r = first_occurrences (places A @ places B) \<and>
     dates r = first_occurrences (dates A @ dates B) \<and>
     tasks r = first_occurrences (tasks A @ tasks B) \<and>
     emotions r = first_occurrences (emotions A @ emotions B) \<and>
     distinct (people r) \<and> distinct (places r) \<and> distinct (dates r) \<and>
     distinct (tasks r) \<and> distinct (emotions r) \<and>
     set (people r) = set (people A) \<union> set (people B) \<and>
     set (places r) = set (places A) \<union> set (places B) \<and>
     set (dates r) = set (dates A) \<union> set (dates B) \<and>
     set (tasks r) = set (tasks A) \<union> set (tasks B) \<and>
     set (emotions r) = set (emotions A) \<union> set (emotions B)"
  by (simp add: new_Set_first_occurrences distinct_first_occurrences
      set_first_occurrences)

text \<open>
  C3. For two present results A (first) and B (second) the fusion returns a result with
  A's summary, category and sentiment, with B's title when it is not the empty string and
  A's title otherwise, with the larger of the two priorities, and with the mean of the
  two confidences (numbers are reals here).
\<close>

theorem fuse_scalar_fields:
  "\<exists>r. fuseContextResults (Some A) (Some B) = Some r \<and>
     summary r = summary A \<and>
     category r = category A \<and>
     sentiment r = sentiment A \<and>
     title r = (if title B \<noteq> [] then title B else title A) \<and>
     priority r = max (priority A) (priority B) \<and>
     confidence r = (confidence A + confidence B) / 2"
  by simp

text \<open>
  C4. The identity law: fusing a result with \<^verbatim>\<open>null\<close> on either side returns
  that result, unchanged.
\<close>

theorem fuse_identity:
  "fuseContextResults (Some A) None = Some A \<and> fuseContextResults None (Some B) = Some B"
  by simp

text \<open>The scenario of the specification's testable properties.\<close>

lemma fuse_scenario:
  "fuseContextResults
     (Some \<lparr>summary = js ''S1'', title = js ''T1'', tags = [js ''a'', js ''b''],
            people = [js ''X''], places = [], dates = [], tasks = [], emotions = [],
            priority = 2, category = js ''work'', sentiment = Neutral, confidence = 8 / 10\<rparr>)
     (Some \<lparr>summary = js ''S2'', title = [], tags = [js ''b'', js ''c''],
            people = [js ''Y''], places = [], dates = [], tasks = [], emotions = [],
            priority = 4, category = js ''personal'', sentiment = Positive,
            confidence = 6 / 10\<rparr>)
   = Some \<lparr>summary = js ''S1'', title = js ''T1'', tags = [js ''a'', js ''b'', js ''c''],
            people = [js ''X'', js ''Y''], places = [], dates = [], tasks = [], emotions = [],
            priority = 4, category = js ''work'', sentiment = Neutral, confidence = 7 / 10\<rparr>"
  by (simp add: new_Set_def Set_add_def js_def)

text \<open>Deduplication is case-sensitive: entries that differ in case are both kept.\<close>

lemma new_Set_case_sensitive:
  "new_Set [js ''Tag'', js ''tag'', js ''Tag''] = [js ''Tag'', js ''tag'']"
  by (simp add: new_Set_def Set_add_def js_def)

subsection \<open>The fusion on the values of a run\<close>

text \<open>
  On values of the declared shape the function runs as it does at its declared type, so
  that the three theorems above are about the values of a run; the shape is what they
  need, since with the empty object for a second value the function throws.
\<close>

lemma is_string_array_iterable:
  "has_field ms name is_string_array \<Longrightarrow> iterable (map_of ms (js name))"
  by (auto simp: has_field_def split: option.splits elim: is_string_array.elims)

lemma shape_spreads: "is_ContextExtractionResult v \<Longrightarrow> spreads v"
  by (cases v) (simp_all add: spreads_def is_string_array_iterable)

lemma strings_of_map: "strings_of (Some (JArray (map JString xs))) = xs"
  by (simp add: comp_def)

lemma list_all_is_string: "list_all is_string (map JString xs)"
  by (induction xs) simp_all

lemma is_sentiment_str: "is_sentiment (JString (Sentiment_str s))"
  by (cases s) simp_all

lemma sentiment_of_str: "sentiment_of (Some (JString (Sentiment_str s))) = s"
  by (cases s) (simp_all add: sentiment_of_def js_def)

lemma to_json_shape: "is_ContextExtractionResult (to_json r)"
  using is_sentiment_str [of "sentiment r"]
  by (simp add: to_json_def has_field_def js_def list_all_is_string del: is_sentiment.simps)

lemma as_to_json: "as_ContextExtractionResult (to_json r) = Some r"
proof -
  have "property (to_json r) ''summary'' = Some (JString (summary r))"
    "property (to_json r) ''title'' = Some (JString (title r))"
    "property (to_json r) ''tags'' = Some (JArray (map JString (tags r)))"
    "property (to_json r) ''people'' = Some (JArray (map JString (people r)))"
    "property (to_json r) ''places'' = Some (JArray (map JString (places r)))"
    "property (to_json r) ''dates'' = Some (JArray (map JString (dates r)))"
    "property (to_json r) ''tasks'' = Some (JArray (map JString (tasks r)))"
    "property (to_json r) ''emotions'' = Some (JArray (map JString (emotions r)))"
    "property (to_json r) ''priority'' = Some (JNumber (priority r))"
    "property (to_json r) ''category'' = Some (JString (category r))"
    "property (to_json r) ''sentiment'' = Some (JString (Sentiment_str (sentiment r)))"
    "property (to_json r) ''confidence'' = Some (JNumber (confidence r))"
    by (simp_all add: to_json_def js_def)
  then show ?thesis
    by (simp add: as_ContextExtractionResult_def to_json_shape strings_of_map sentiment_of_str
        del: strings_of.simps)
qed

lemma fuse_values_typed:
  "fuse_values (to_json a) (to_json b) =
     Inr (Value (case fuseContextResults (Some a) (Some b) of
                   None \<Rightarrow> JNull
                 | Some r \<Rightarrow> to_json r))"
  by (simp add: fuse_values_def shape_truthy shape_spreads to_json_shape as_to_json
      del: fuseContextResults.simps split: option.split)

lemma fuse_values_empty_object: "truthy c \<Longrightarrow> fuse_values c (JObject []) = Inl SpreadTypeError"
  by (simp add: fuse_values_def spreads_def)

section \<open>Properties of the providers' response handling\<close>

subsection \<open>The parser on the tokens of a value\<close>

lemma run_append:
  "run cfg (xs @ ys) = (case run cfg xs of None \<Rightarrow> None | Some cfg' \<Rightarrow> run cfg' ys)"
  by (induction xs arbitrary: cfg) (auto split: option.splits)

lemma define_member_fresh: "k \<notin> fst ` set ms \<Longrightarrow> define_member ms k v = ms @ [(k, v)]"
  by (induction ms) auto

lemma run_elements:
  assumes "\<And>e m st. e \<in> set es \<Longrightarrow> value_mode m \<Longrightarrow> run (m, st) (tokens_of e) = deliver e st"
    and "es \<noteq> []" and "value_mode m"
  shows "run (m, FArray acc # st) (sep (map tokens_of es)) = Some (MNext, FArray (acc @ es) # st)"
  using assms
proof (induction es arbitrary: acc m)
  case Nil
  then show ?case by simp
next
  case (Cons e es)
  have e: "run (m, FArray acc # st) (tokens_of e) = Some (MNext, FArray (acc @ [e]) # st)"
    using Cons.prems(1) [of e m "FArray acc # st"] Cons.prems(3) by simp
  show ?case
  proof (cases es)
    case Nil
    with e show ?thesis by simp
  next
    case (Cons e' es')
    have "run (MValue, FArray (acc @ [e]) # st) (sep (map tokens_of es)) =
        Some (MNext, FArray ((acc @ [e]) @ es) # st)"
      using Cons.IH [of MValue "acc @ [e]"] Cons.prems(1) Cons
      by (simp add: value_mode_def)
    with e Cons show ?thesis
      by (simp add: run_append)
  qed
qed

lemma run_members:
  assumes "\<And>k v m st. (k, v) \<in> set ms \<Longrightarrow> value_mode m \<Longrightarrow> run (m, st) (tokens_of v) = deliver v st"
    and "ms \<noteq> []" and "key_mode m" and "distinct (map fst (acc @ ms))"
  shows "run (m, FObject acc None # st)
           (sep (map (\<lambda>m. TString (fst m) # Colon # tokens_of (snd m)) ms)) =
         Some (MNext, FObject (acc @ ms) None # st)"
  using assms
proof (induction ms arbitrary: acc m)
  case Nil
  then show ?case by simp
next
  case (Cons kv ms)
  obtain k v where kv: "kv = (k, v)" by (cases kv)
  from Cons.prems(4) kv have fresh: "k \<notin> fst ` set acc" by auto
  have v: "run (MValue, FObject acc (Some k) # st) (tokens_of v) =
      Some (MNext, FObject (acc @ [(k, v)]) None # st)"
    using Cons.prems(1) [of k v MValue "FObject acc (Some k) # st"] kv
    by (simp add: value_mode_def define_member_fresh [OF fresh])
  have k: "step (m, FObject acc None # st) (TString k) = Some (MColon, FObject acc (Some k) # st)"
    using Cons.prems(3) by (auto simp: key_mode_def)
  have one: "run (m, FObject acc None # st) (TString k # Colon # tokens_of v) =
      Some (MNext, FObject (acc @ [(k, v)]) None # st)"
    using k v by simp
  show ?case
  proof (cases ms)
    case Nil
    with one kv show ?thesis by simp
  next
    case (Cons kv' ms')
    have p1: "run (m', st') (tokens_of v') = deliver v' st'"
      if "(k', v') \<in> set ms" "value_mode m'" for k' v' m' st'
      using Cons.prems(1) [of k' v' m' st'] that by simp
    have p2: "ms \<noteq> []" using Cons by simp
    have p3: "key_mode MKey" by (simp add: key_mode_def)
    have p4: "distinct (map fst ((acc @ [(k, v)]) @ ms))"
      using Cons.prems(4) kv by simp
    have "run (MKey, FObject (acc @ [(k, v)]) None # st)
            (sep (map (\<lambda>m. TString (fst m) # Colon # tokens_of (snd m)) ms)) =
          Some (MNext, FObject ((acc @ [(k, v)]) @ ms) None # st)"
      by (rule Cons.IH [OF p1 p2 p3 p4])
    with one Cons kv show ?thesis
      using run_append [of "(m, FObject acc None # st)" "TString k # Colon # tokens_of v"]
      by simp
  qed
qed

lemma run_tokens_of:
  "distinct_keys v \<Longrightarrow> value_mode m \<Longrightarrow> run (m, st) (tokens_of v) = deliver v st"
proof (induction v arbitrary: m st)
  case (JArray es)
  have IH: "run (m, st) (tokens_of e) = deliver e st" if "e \<in> set es" "value_mode m" for e m st
    using JArray.IH [OF that(1) _ that(2)] JArray.prems(1) that(1)
    by (simp add: list_all_iff)
  have s: "step (m, st) LBracket = Some (MValueOrClose, FArray [] # st)"
    using JArray.prems(2) by (auto simp: value_mode_def)
  show ?case
  proof (cases "es = []")
    case True
    with s show ?thesis by (simp split: option.splits)
  next
    case False
    from run_elements [OF IH False, where m = MValueOrClose and acc = "[]" and st = st]
    have "run (MValueOrClose, FArray [] # st) (sep (map tokens_of es)) =
        Some (MNext, FArray es # st)"
      by (simp add: value_mode_def)
    with s show ?thesis by (simp add: run_append split: option.splits)
  qed
next
  case (JObject ms)
  have IH: "run (m, st) (tokens_of v) = deliver v st" if "(k, v) \<in> set ms" "value_mode m"
    for k v m st
  proof -
    from that(1) JObject.prems(1) have "distinct_keys v"
      by (auto simp: list_all_iff)
    with JObject.IH [of "(k, v)" v m st] that show ?thesis by simp
  qed
  have s: "step (m, st) LBrace = Some (MKeyOrClose, FObject [] None # st)"
    using JObject.prems(2) by (auto simp: value_mode_def)
  show ?case
  proof (cases "ms = []")
    case True
    with s show ?thesis by (simp split: option.splits)
  next
    case False
    from JObject.prems(1) have "distinct (map fst ([] @ ms))" by simp
    from run_members [OF IH False _ this, where m = MKeyOrClose and st = st]
    have "run (MKeyOrClose, FObject [] None # st)
            (sep (map (\<lambda>m. TString (fst m) # Colon # tokens_of (snd m)) ms)) =
          Some (MNext, FObject ms None # st)"
      by (simp add: key_mode_def)
    with s show ?thesis by (simp add: run_append split: option.splits)
  qed
qed (auto simp: value_mode_def split: option.splits)

text \<open>
  The parser accepts the tokens of every value, nested to any depth, and gives the value
  back.
\<close>

lemma parse_tokens_tokens_of: "distinct_keys v \<Longrightarrow> parse_tokens (tokens_of v) = Some v"
  by (simp add: parse_tokens_def run_tokens_of value_mode_def)

subsection \<open>Well-formed JSON text and backquotes\<close>

lemma hex_value_plain: "hex_value h = Some n \<Longrightarrow> 0x20 \<le> h \<and> h \<noteq> 0x22 \<and> h \<noteq> 0x5C"
  by (auto simp: hex_value_def split: if_splits)

lemma hex4_plain:
  "hex4 a b c d = Some u \<Longrightarrow> scan Inside (a # b # c # d # rest) = scan Inside rest"
  by (auto simp: hex4_def split: option.splits dest!: hex_value_plain)

lemma simple_escape_plain: "simple_escape e = Some v \<Longrightarrow> 0x20 \<le> e"
  by (auto simp: simple_escape_def split: if_splits)

text \<open>A string literal that is accepted reads as one string, from inside to outside.\<close>

lemma lex_string_scan:
  "lex_string s = Some (v, r) \<Longrightarrow> scan Outside r \<Longrightarrow> scan Inside s"
proof (induction s arbitrary: v r rule: lex_string.induct)
  case 1
  then show ?case by simp
next
  case (2 c cs)
  show ?case
  proof (cases "c = 0x22")
    case True
    with 2 show ?thesis by simp
  next
    case nq: False
    show ?thesis
    proof (cases "c = 0x5C")
      case True
      with "2.prems" obtain e es where cs: "cs = e # es"
        by (auto split: list.splits)
      show ?thesis
      proof (cases "e = 0x75")
        case u: True
        with "2.prems" True cs obtain h1 h2 h3 h4 rest u' v' where
          es: "es = h1 # h2 # h3 # h4 # rest" and h: "hex4 h1 h2 h3 h4 = Some u'"
          and l: "lex_string rest = Some (v', r)"
          by (auto split: list.splits option.splits)
        have "scan Inside rest"
          using "2.IH"(1) nq True cs u es h l "2.prems"(2)
          by blast
        with hex4_plain [OF h] es cs True u show ?thesis by simp
      next
        case nu: False
        with "2.prems" True cs obtain w v' where
          w: "simple_escape e = Some w" and l: "lex_string es = Some (v', r)"
          by (auto split: option.splits)
        from "2.IH"(2) [OF nq True cs nu w l "2.prems"(2)]
        have "scan Inside es" .
        with simple_escape_plain [OF w] cs True show ?thesis by simp
      qed
    next
      case nb: False
      with "2.prems" nq obtain v' where c: "\<not> c < 0x20" and l: "lex_string cs = Some (v', r)"
        by (auto split: if_splits)
      from "2.IH"(3) [OF nq nb c l "2.prems"(2)] have "scan Inside cs" .
      with nq nb c show ?thesis by simp
    qed
  qed
qed

text \<open>What a number consumes holds neither a backquote nor a quotation mark.\<close>

lemma scan_Outside_quiet: "list_all quiet p \<Longrightarrow> scan Outside (p @ r) = scan Outside r"
  by (induction p) (simp_all add: quiet_def)

lemma is_digit_quiet: "is_digit c \<Longrightarrow> quiet c"
  by (simp add: is_digit_def quiet_def)

lemma takeWhile_digit_quiet: "list_all quiet (takeWhile is_digit s)"
  by (induction s) (simp_all add: is_digit_quiet)

lemma lex_int_consumes:
  "lex_int s = Some (ip, r) \<Longrightarrow> \<exists>p. s = p @ r \<and> list_all quiet p"
proof -
  assume a: "lex_int s = Some (ip, r)"
  then obtain c cs where s: "s = c # cs" by (cases s) (simp_all add: lex_int_def)
  show ?thesis
  proof (cases "c = 0x30")
    case True
    with a s have "s = [c] @ r" by (simp add: lex_int_def)
    moreover from True have "list_all quiet [c]" by (simp add: quiet_def)
    ultimately show ?thesis by blast
  next
    case False
    with a s have "r = dropWhile is_digit s"
      by (simp add: lex_int_def split: if_splits)
    then have "s = takeWhile is_digit s @ r" by simp
    with takeWhile_digit_quiet show ?thesis by blast
  qed
qed

lemma lex_frac_consumes:
  "lex_frac s = (fp, r) \<Longrightarrow> \<exists>p. s = p @ r \<and> list_all quiet p"
proof -
  assume a: "lex_frac s = (fp, r)"
  show ?thesis
  proof (cases "r = s")
    case True
    then have "s = [] @ r" "list_all quiet []" by simp_all
    then show ?thesis by blast
  next
    case False
    with a obtain c ds where s: "s = c # ds" and c: "c = 0x2E" and r: "r = dropWhile is_digit ds"
      by (auto simp: lex_frac_def split: list.splits if_splits)
    then have "s = (c # takeWhile is_digit ds) @ r" by simp
    moreover have "list_all quiet (c # takeWhile is_digit ds)"
      using c takeWhile_digit_quiet by (simp add: quiet_def)
    ultimately show ?thesis by blast
  qed
qed

lemma lex_sign_consumes:
  "lex_sign s = (sg, r) \<Longrightarrow> \<exists>p. s = p @ r \<and> list_all quiet p"
proof -
  assume a: "lex_sign s = (sg, r)"
  show ?thesis
  proof (cases "r = s")
    case True
    then have "s = [] @ r" "list_all quiet []" by simp_all
    then show ?thesis by blast
  next
    case False
    with a obtain c where "s = [c] @ r" "c = 0x2B \<or> c = 0x2D"
      by (auto simp: lex_sign_def split: list.splits if_splits)
    then have "s = [c] @ r" "list_all quiet [c]" by (auto simp: quiet_def)
    then show ?thesis by blast
  qed
qed

lemma lex_exp_consumes:
  "lex_exp s = (ex, r) \<Longrightarrow> \<exists>p. s = p @ r \<and> list_all quiet p"
proof -
  assume a: "lex_exp s = (ex, r)"
  show ?thesis
  proof (cases "r = s")
    case True
    then have "s = [] @ r" "list_all quiet []" by simp_all
    then show ?thesis by blast
  next
    case False
    with a obtain e cs where s: "s = e # cs" by (cases s) (simp_all add: lex_exp_def)
    obtain sg ds where sg: "lex_sign cs = (sg, ds)" by (cases "lex_sign cs")
    from a s sg False have e: "e = 0x65 \<or> e = 0x45" and r: "r = dropWhile is_digit ds"
      by (auto simp: lex_exp_def split: if_splits)
    from lex_sign_consumes [OF sg] obtain p where p: "cs = p @ ds" "list_all quiet p" by blast
    have "s = (e # p @ takeWhile is_digit ds) @ r"
      using s p r by simp
    moreover have "list_all quiet (e # p @ takeWhile is_digit ds)"
      using e p takeWhile_digit_quiet by (auto simp: quiet_def)
    ultimately show ?thesis by blast
  qed
qed

lemma lex_number_consumes:
  "lex_number s = Some (v, r) \<Longrightarrow> \<exists>p. s = p @ r \<and> list_all quiet p"
proof -
  assume a: "lex_number s = Some (v, r)"
  define neg where "neg = (case s of c # cs \<Rightarrow> c = 0x2D | [] \<Rightarrow> False)"
  define s1 where "s1 = (if neg then tl s else s)"
  have "\<exists>p0. s = p0 @ s1 \<and> list_all quiet p0"
  proof (cases neg)
    case True
    then obtain cs where "s = 0x2D # cs" by (auto simp: neg_def split: list.splits)
    with True have "s = [0x2D] @ s1" "list_all quiet [0x2D]" by (simp_all add: s1_def quiet_def)
    then show ?thesis by blast
  next
    case False
    then have "s = [] @ s1" "list_all quiet []" by (simp_all add: s1_def)
    then show ?thesis by blast
  qed
  then obtain p0 where p0: "s = p0 @ s1" "list_all quiet p0" by blast
  from a obtain ip s2 fp s3 ex where
    i: "lex_int s1 = Some (ip, s2)" and f: "lex_frac s2 = (fp, s3)" and e: "lex_exp s3 = (ex, r)"
    by (auto simp: lex_number_def Let_def s1_def neg_def split: option.splits prod.splits)
  from lex_int_consumes [OF i] obtain p1 where p1: "s1 = p1 @ s2" "list_all quiet p1" by blast
  from lex_frac_consumes [OF f] obtain p2 where p2: "s2 = p2 @ s3" "list_all quiet p2" by blast
  from lex_exp_consumes [OF e] obtain p3 where p3: "s3 = p3 @ r" "list_all quiet p3" by blast
  have "s = (p0 @ p1 @ p2 @ p3) @ r" using p0 p1 p2 p3 by simp
  moreover have "list_all quiet (p0 @ p1 @ p2 @ p3)" using p0 p1 p2 p3 by simp
  ultimately show ?thesis by blast
qed

lemma lex_number_scan:
  "lex_number s = Some (v, r) \<Longrightarrow> scan Outside r \<Longrightarrow> scan Outside s"
  using lex_number_consumes scan_Outside_quiet by blast

lemma prefix_literal_scan:
  "prefix lit s \<Longrightarrow> list_all quiet lit \<Longrightarrow> scan Outside (drop (length lit) s) \<Longrightarrow> scan Outside s"
  by (auto simp: prefix_def scan_Outside_quiet)

text \<open>The ways in which a text that starts with \<open>c\<close> has tokens.\<close>

lemma tokenize_cases:
  assumes "tokenize (c # cs) = Some ts"
  shows "(is_ws c \<and> tokenize cs = Some ts) \<or>
     ((c = 0x7B \<or> c = 0x7D \<or> c = 0x5B \<or> c = 0x5D \<or> c = 0x3A \<or> c = 0x2C) \<and>
        (\<exists>ts'. tokenize cs = Some ts')) \<or>
     (c = 0x22 \<and> (\<exists>v r ts'. lex_string cs = Some (v, r) \<and> tokenize r = Some ts')) \<or>
     (\<exists>v r ts'. lex_number (c # cs) = Some (v, r) \<and> tokenize r = Some ts') \<or>
     (\<exists>lit ts'. (lit = js ''true'' \<or> lit = js ''false'' \<or> lit = js ''null'') \<and>
        prefix lit (c # cs) \<and> tokenize (drop (length lit) (c # cs)) = Some ts')"
proof -
  consider
      (ws) "is_ws c"
    | (punct) "\<not> is_ws c" "c = 0x7B \<or> c = 0x7D \<or> c = 0x5B \<or> c = 0x5D \<or> c = 0x3A \<or> c = 0x2C"
    | (str) "\<not> is_ws c" "c = 0x22"
    | (num) "\<not> is_ws c" "c = 0x2D \<or> is_digit c"
    | (other) "\<not> is_ws c" "c \<noteq> 0x7B" "c \<noteq> 0x7D" "c \<noteq> 0x5B" "c \<noteq> 0x5D" "c \<noteq> 0x3A"
        "c \<noteq> 0x2C" "c \<noteq> 0x22" "\<not> (c = 0x2D \<or> is_digit c)"
    by blast
  then show ?thesis
  proof cases
    case ws
    with assms have "tokenize cs = Some ts" by simp
    with ws show ?thesis by simp
  next
    case punct
    from punct(2) assms punct(1) have "\<exists>ts'. tokenize cs = Some ts'"
      by (elim disjE) auto
    with punct show ?thesis by simp
  next
    case str
    with assms have "\<exists>v r ts'. lex_string cs = Some (v, r) \<and> tokenize r = Some ts'"
      by (auto split: option.splits)
    with str show ?thesis by simp
  next
    case num
    then have "c \<noteq> 0x7B" "c \<noteq> 0x7D" "c \<noteq> 0x5B" "c \<noteq> 0x5D" "c \<noteq> 0x3A" "c \<noteq> 0x2C" "c \<noteq> 0x22"
      by (auto simp: is_digit_def)
    with assms num
    have "\<exists>v r ts'. lex_number (c # cs) = Some (v, r) \<and> tokenize r = Some ts'"
      by (simp split: option.splits prod.splits) blast
    then show ?thesis by simp
  next
    case other
    have lens: "length (js ''true'') = 4" "length (js ''false'') = 5" "length (js ''null'') = 4"
      by (simp_all add: js_def)
    from assms other
    have e: "(if prefix (js ''true'') (c # cs)
                then map_option (Cons TTrue) (tokenize (drop 3 cs))
              else if prefix (js ''false'') (c # cs)
                then map_option (Cons TFalse) (tokenize (drop 4 cs))
              else if prefix (js ''null'') (c # cs)
                then map_option (Cons TNull) (tokenize (drop 3 cs))
              else None) = Some ts"
      by (simp only: tokenize.simps if_False)
    have d: "drop 4 (c # cs) = drop 3 cs" "drop 5 (c # cs) = drop 4 cs"
      by (simp_all add: drop_Cons')
    show ?thesis
    proof (cases "prefix (js ''true'') (c # cs)")
      case True
      with e obtain ts' where "tokenize (drop 3 cs) = Some ts'" by (simp only: if_True) blast
      with True lens d have "prefix (js ''true'') (c # cs) \<and>
          tokenize (drop (length (js ''true'')) (c # cs)) = Some ts'" by simp
      then show ?thesis by blast
    next
      case nt: False
      show ?thesis
      proof (cases "prefix (js ''false'') (c # cs)")
        case True
        with e nt obtain ts' where "tokenize (drop 4 cs) = Some ts'"
          by (simp only: if_True if_False) blast
        with True lens d have "prefix (js ''false'') (c # cs) \<and>
            tokenize (drop (length (js ''false'')) (c # cs)) = Some ts'" by simp
        then show ?thesis by blast
      next
        case nf: False
        show ?thesis
        proof (cases "prefix (js ''null'') (c # cs)")
          case True
          with e nt nf obtain ts' where "tokenize (drop 3 cs) = Some ts'"
            by (simp only: if_True if_False) blast
          with True lens d have "prefix (js ''null'') (c # cs) \<and>
              tokenize (drop (length (js ''null'')) (c # cs)) = Some ts'" by simp
          then show ?thesis by blast
        next
          case False
          with e nt nf show ?thesis by (simp only: if_False) simp
        qed
      qed
    qed
  qed
qed

text \<open>
  In a text that has tokens, a backquote stands only inside a string literal, and a
  string literal holds no line feed.
\<close>

lemma tokenize_scan: "tokenize s = Some ts \<Longrightarrow> scan Outside s"
proof (induction s arbitrary: ts rule: length_induct)
  case (1 s)
  have IH: "scan Outside r" if "length r < length s" "tokenize r = Some ts'" for r ts'
    using 1(1) that by blast
  show ?case
  proof (cases s)
    case Nil
    then show ?thesis by simp
  next
    case (Cons c cs)
    with 1(2) have t: "tokenize (c # cs) = Some ts" by simp
    from tokenize_cases [OF t] consider
        (ws) "is_ws c" "tokenize cs = Some ts"
      | (punct) "c = 0x7B \<or> c = 0x7D \<or> c = 0x5B \<or> c = 0x5D \<or> c = 0x3A \<or> c = 0x2C"
          "\<exists>ts'. tokenize cs = Some ts'"
      | (str) v r ts' where "c = 0x22" "lex_string cs = Some (v, r)" "tokenize r = Some ts'"
      | (num) v r ts' where "lex_number (c # cs) = Some (v, r)" "tokenize r = Some ts'"
      | (lit) l ts' where "l = js ''true'' \<or> l = js ''false'' \<or> l = js ''null''"
          "prefix l (c # cs)" "tokenize (drop (length l) (c # cs)) = Some ts'"
      by blast
    then show ?thesis
    proof cases
      case ws
      from IH [OF _ ws(2)] Cons have "scan Outside cs" by simp
      with ws(1) Cons show ?thesis by (auto simp: is_ws_def)
    next
      case punct
      then obtain ts' where "tokenize cs = Some ts'" by blast
      from IH [OF _ this] Cons have "scan Outside cs" by simp
      with punct(1) Cons show ?thesis by auto
    next
      case str
      from lex_string_shorter [OF str(2)] Cons have "length r < length s" by simp
      from IH [OF this str(3)] have "scan Outside r" .
      from lex_string_scan [OF str(2) this] str(1) Cons show ?thesis by simp
    next
      case num
      from lex_number_shorter [OF num(1)] Cons have "length r < length s" by simp
      from IH [OF this num(2)] have "scan Outside r" .
      from lex_number_scan [OF num(1) this] Cons show ?thesis by simp
    next
      case lit
      from lit(1) have l: "list_all quiet l" "0 < length l"
        by (auto simp: js_def quiet_def)
      then have "length (drop (length l) (c # cs)) < length s"
        using Cons by simp
      from IH [OF this lit(3)] have "scan Outside (drop (length l) (c # cs))" .
      from prefix_literal_scan [OF lit(2) l(1) this] Cons show ?thesis by simp
    qed
  qed
qed

lemma JSON_parse_scan: "JSON_parse s = Some v \<Longrightarrow> scan Outside s"
  by (auto simp: JSON_parse_def split: option.splits dest: tokenize_scan)

lemma JSON_parse_nonempty: "JSON_parse s = Some v \<Longrightarrow> s \<noteq> []"
  by (auto simp: JSON_parse_def parse_tokens_def)

subsection \<open>The code fence pattern on such texts\<close>

lemma scan_fence_open: "\<not> scan q (fence_open @ rest)"
  by (cases q) (simp_all add: fence_open_def js_def)

lemma scan_tail: "scan q (c # cs) \<Longrightarrow> \<exists>q'. scan q' cs"
  by (cases q) auto

lemma match_at_scan: "scan q s \<Longrightarrow> match_at s = None"
  using scan_fence_open by (auto simp: match_at_def prefix_def)

text \<open>The pattern matches nowhere in a well-formed JSON text.\<close>

lemma jsonMatch_scan: "scan q s \<Longrightarrow> jsonMatch s = None"
proof (induction s arbitrary: q)
  case Nil
  show ?case by simp
next
  case (Cons c cs)
  from scan_tail [OF Cons.prems] obtain q' where "scan q' cs" by blast
  with Cons.IH have "jsonMatch cs = None" by blast
  with match_at_scan [OF Cons.prems] show ?case by simp
qed

lemma jsonText_well_formed: "JSON_parse s = Some v \<Longrightarrow> jsonText s = s"
  by (simp add: jsonText_def jsonMatch_scan [OF JSON_parse_scan])

text \<open>The closing part of the pattern starts nowhere inside such a text.\<close>

lemma not_close_here:
  assumes "scan q (d # ds)"
  shows "\<not> prefix fence_close (d # ds @ fence_close @ post)"
proof (cases "d = 0x0A")
  case False
  then show ?thesis by (simp add: fence_close_def js_def)
next
  case True
  with assms have q: "q = Outside" by (cases q) auto
  show ?thesis
  proof (cases ds)
    case Nil
    with True show ?thesis by (simp add: fence_close_def js_def)
  next
    case (Cons e es)
    with assms q True have "e \<noteq> 0x60" by simp
    with Cons True show ?thesis by (simp add: fence_close_def js_def)
  qed
qed

lemma lazy_capture_scan:
  "scan q cs \<Longrightarrow> lazy_capture g (cs @ fence_close @ post) = Some (g @ cs)"
proof (induction cs arbitrary: g q)
  case Nil
  have "fence_close @ post = 0x0A # tl (fence_close @ post)"
    by (simp add: fence_close_def js_def)
  moreover have "prefix fence_close (0x0A # tl (fence_close @ post))"
    by (simp add: fence_close_def js_def)
  ultimately show ?case
    by (metis append_Nil append_Nil2 lazy_capture.simps(2))
next
  case (Cons d ds)
  from scan_tail [OF Cons.prems] obtain q' where "scan q' ds" by blast
  from Cons.IH [OF this]
  have "lazy_capture (g @ [d]) (ds @ fence_close @ post) = Some ((g @ [d]) @ ds)" .
  with not_close_here [OF Cons.prems] show ?case by simp
qed

lemma prefix_cut: "prefix xs (ys @ zs) \<Longrightarrow> length xs \<le> length ys \<Longrightarrow> prefix xs ys"
  by (metis prefix_length_prefix prefix_append append_prefixD prefixI length_append le_add1)

lemma backquote_free_opener_free: "0x60 \<notin> set pre \<Longrightarrow> opener_free pre"
proof (induction pre)
  case Nil
  show ?case by simp
next
  case (Cons p pre)
  then have "p \<noteq> 0x60" by simp
  then have "\<not> prefix fence_open (p # pre @ fence_open)"
    by (simp add: fence_open_def js_def)
  with Cons show ?case by simp
qed

lemma jsonMatch_skip:
  "opener_free pre \<Longrightarrow> match_at (fence_open @ rest) = Some g \<Longrightarrow>
     jsonMatch (pre @ fence_open @ rest) = Some g"
proof (induction pre)
  case Nil
  obtain c cs where "fence_open @ rest = c # cs"
    by (cases "fence_open @ rest") (simp_all add: fence_open_def js_def)
  with Nil show ?case by simp
next
  case (Cons p pre)
  from Cons.prems(1) have np: "\<not> prefix fence_open (p # pre @ fence_open)"
    and fr: "opener_free pre" by simp_all
  have "\<not> prefix fence_open ((p # pre @ fence_open) @ rest)"
  proof
    assume "prefix fence_open ((p # pre @ fence_open) @ rest)"
    then have "prefix fence_open (p # pre @ fence_open)"
      by (rule prefix_cut) simp
    with np show False ..
  qed
  then have "match_at (p # pre @ fence_open @ rest) = None"
    by (simp add: match_at_def)
  with Cons.IH [OF fr Cons.prems(2)] show ?case by simp
qed

lemma match_at_fenced:
  assumes "x \<noteq> []" "scan Outside x"
  shows "match_at (fence_open @ x @ fence_close @ post) = Some x"
proof -
  from assms obtain c cs where x: "x = c # cs" by (cases x) auto
  with assms(2) obtain q where "scan q cs" using scan_tail by blast
  from lazy_capture_scan [OF this] x show ?thesis
    by (simp add: match_at_def)
qed

lemma jsonText_fenced:
  assumes "JSON_parse x = Some v" and "opener_free pre"
  shows "jsonText (pre @ fence_open @ x @ fence_close @ post) = x"
proof -
  from assms(1) have s: "scan Outside x" and n: "x \<noteq> []"
    by (rule JSON_parse_scan, rule JSON_parse_nonempty)
  from jsonMatch_skip [OF assms(2) match_at_fenced [OF n s]]
  show ?thesis by (simp add: jsonText_def)
qed

subsection \<open>Examples\<close>

lemma JSON_parse_examples:
  "JSON_parse (js ''{}'') = Some (JObject [])"
  "JSON_parse (js '' [1, 2.5e1, -0.5] '') = Some (JArray [JNumber 1, JNumber 25, JNumber (- 1 / 2)])"
  "JSON_parse (js ''{\"a\": true, \"b\": null, \"a\": \"again\"}'') =
     Some (JObject [(js ''a'', JString (js ''again'')), (js ''b'', JNull)])"
  "JSON_parse (js ''[1,]'') = None"
  "JSON_parse (js ''{\"a\" 1}'') = None"
  "JSON_parse (js ''01'') = None"
  "JSON_parse (js ''[\"a\<newline>b\"]'') = None"
  "JSON_parse [] = None"
  by code_simp+

text \<open>A response that has every field, of the declared type, has the shape.\<close>

lemma complete_payload_example:
  "ClaudeAIProvider_extractContext
     (Inr [TextBlock (js ''{\"summary\": \"S\", \"title\": \"T\", \"tags\": [\"a\", \"b\"], \"people\": [], \"places\": [], \"dates\": [], \"tasks\": [], \"emotions\": [\"joy\"], \"priority\": 3, \"category\": \"work\", \"sentiment\": \"neutral\", \"confidence\": 0.9}'')])
   = Inr (JObject
       [(js ''summary'', JString (js ''S'')), (js ''title'', JString (js ''T'')),
        (js ''tags'', JArray [JString (js ''a''), JString (js ''b'')]),
        (js ''people'', JArray []), (js ''places'', JArray []), (js ''dates'', JArray []),
        (js ''tasks'', JArray []), (js ''emotions'', JArray [JString (js ''joy'')]),
        (js ''priority'', JNumber 3), (js ''category'', JString (js ''work'')),
        (js ''sentiment'', JString (js ''neutral'')), (js ''confidence'', JNumber (9 / 10))])"
  "is_ContextExtractionResult (JObject
       [(js ''summary'', JString (js ''S'')), (js ''title'', JString (js ''T'')),
        (js ''tags'', JArray [JString (js ''a''), JString (js ''b'')]),
        (js ''people'', JArray []), (js ''places'', JArray []), (js ''dates'', JArray []),
        (js ''tasks'', JArray []), (js ''emotions'', JArray [JString (js ''joy'')]),
        (js ''priority'', JNumber 3), (js ''category'', JString (js ''work'')),
        (js ''sentiment'', JString (js ''neutral'')), (js ''confidence'', JNumber (9 / 10))])"
  by code_simp+

subsection \<open>What the providers check\<close>

text \<open>
  C8, as stated, fails: a payload that is well-formed JSON but lacks required fields, or
  has a field of another type, is returned and not refused. With no message content the
  OpenAI provider returns the empty object; a payload whose only field is a summary that
  is a number is returned by the Claude provider as it is.
\<close>

theorem unchecked_payload_counterexample:
  "OpenAIProvider_extractContext (Inr [None]) = Inr (JObject []) \<and>
   \<not> is_ContextExtractionResult (JObject []) \<and>
   ClaudeAIProvider_extractContext (Inr [TextBlock (js ''{\"summary\": 7}'')]) =
     Inr (JObject [(js ''summary'', JNumber 7)]) \<and>
   \<not> is_ContextExtractionResult (JObject [(js ''summary'', JNumber 7)])"
  by code_simp

text \<open>
  C8, amended. A provider's extractContext checks the JSON grammar and nothing else.
  Every payload that is well-formed JSON is returned as the value it denotes, whatever
  its fields and their types, by both providers. A payload that is not well-formed JSON
  fails with MalformedResponse: for Claude the payload is the text after the code fence
  is stripped, for OpenAI the message content, where no content or the empty string
  stands for the empty object and returns it.
\<close>

theorem extractContext_checks_syntax_only:
  "(JSON_parse t = Some v \<longrightarrow>
      ClaudeAIProvider_extractContext (Inr (TextBlock t # bs)) = Inr v \<and>
      OpenAIProvider_extractContext (Inr (Some t # cs)) = Inr v) \<and>
   (JSON_parse (jsonText t) = None \<longrightarrow>
      ClaudeAIProvider_extractContext (Inr (TextBlock t # bs)) = Inl MalformedResponse) \<and>
   (t \<noteq> [] \<and> JSON_parse t = None \<longrightarrow>
      OpenAIProvider_extractContext (Inr (Some t # cs)) = Inl MalformedResponse) \<and>
   OpenAIProvider_extractContext (Inr (None # cs)) = Inr (JObject []) \<and>
   OpenAIProvider_extractContext (Inr (Some [] # cs)) = Inr (JObject [])"
proof -
  have empty: "JSON_parse (js ''{}'') = Some (JObject [])"
    by code_simp
  have "JSON_parse t = Some v \<longrightarrow> t \<noteq> []"
    using JSON_parse_nonempty by blast
  then show ?thesis
    by (auto simp: ClaudeAIProvider_extractContext_def OpenAIProvider_extractContext_def
        content_or_empty_object_def jsonText_well_formed empty)
qed

theorem extractContext_checks_syntax_only_witness:
  "ClaudeAIProvider_extractContext (Inr [TextBlock (js ''{\"title\": \"T\"}'')]) =
     Inr (JObject [(js ''title'', JString (js ''T''))]) \<and>
   OpenAIProvider_extractContext (Inr [Some (js ''{\"title\": \"T\"}'')]) =
     Inr (JObject [(js ''title'', JString (js ''T''))]) \<and>
   ClaudeAIProvider_extractContext (Inr [TextBlock (js ''{title}'')]) = Inl MalformedResponse \<and>
   OpenAIProvider_extractContext (Inr [Some (js ''{title}'')]) = Inl MalformedResponse"
proof -
  have p: "JSON_parse (js ''{\"title\": \"T\"}'') = Some (JObject [(js ''title'', JString (js ''T''))])"
    by code_simp
  have n: "JSON_parse (jsonText (js ''{title}'')) = None"
    "js ''{title}'' \<noteq> [] \<and> JSON_parse (js ''{title}'') = None"
    by code_simp+
  from p n
    extractContext_checks_syntax_only
      [of "js ''{\"title\": \"T\"}''" "JObject [(js ''title'', JString (js ''T''))]" "[]" "[]"]
    extractContext_checks_syntax_only [of "js ''{title}''" JNull "[]" "[]"]
  show ?thesis by blast
qed

subsection \<open>The code fence\<close>

text \<open>
  C9. The provider is to strip the code fence around a payload before parsing, as its
  comment says (extract JSON from markdown code blocks if present). For a code fence
  with no \<^verbatim>\<open>json\<close> after the opening backquotes, a markdown code fence all
  the same, it does not: the pattern matches nowhere, the text with its fence goes to
  the parser, and the call fails with MalformedResponse, where the payload with no fence
  is returned.
\<close>

theorem untagged_fence_not_stripped:
  "jsonMatch (js ''```\<newline>{}\<newline>```'') = None \<and>
   jsonText (js ''```\<newline>{}\<newline>```'') = js ''```\<newline>{}\<newline>```'' \<and>
   ClaudeAIProvider_extractContext (Inr [TextBlock (js ''```\<newline>{}\<newline>```'')]) =
     Inl MalformedResponse \<and>
   ClaudeAIProvider_extractContext (Inr [TextBlock (js ''{}'')]) = Inr (JObject [])"
  by code_simp

text \<open>
  The fence with the tag is the case the pattern is written for, and there the provider
  does what is asked of it, for every payload: where a payload that is well-formed JSON
  stands between three backquotes, \<^verbatim>\<open>json\<close>, a line feed and a line feed,
  three backquotes, after a text in which the opening part does not stand before and
  before any text at all, the fence is stripped, and the value of the payload is
  returned, as it is for the payload with no fence.
\<close>

lemma json_fence_stripped:
  assumes "JSON_parse x = Some v" and "opener_free pre"
  shows "ClaudeAIProvider_extractContext
           (Inr (TextBlock (pre @ js ''```json\<newline>'' @ x @ js ''\<newline>```'' @ post) # bs))
           = Inr v \<and>
         ClaudeAIProvider_extractContext (Inr (TextBlock x # bs)) = Inr v"
proof -
  from jsonText_fenced [OF assms]
  have "jsonText (pre @ js ''```json\<newline>'' @ x @ js ''\<newline>```'' @ post) = x"
    by (simp add: fence_open_def fence_close_def)
  with assms(1) jsonText_well_formed [OF assms(1)] show ?thesis
    by (simp add: ClaudeAIProvider_extractContext_def)
qed

lemma json_fence_stripped_example:
  "ClaudeAIProvider_extractContext
     (Inr [TextBlock (js ''The `result`:\<newline>'' @ js ''```json\<newline>'' @
        js ''{\"title\": \"T\",\<newline> \"priority\": 2}'' @ js ''\<newline>```'' @ js ''\<newline>Done.'')])
     = Inr (JObject [(js ''title'', JString (js ''T'')), (js ''priority'', JNumber 2)]) \<and>
   ClaudeAIProvider_extractContext
     (Inr [TextBlock (js ''{\"title\": \"T\",\<newline> \"priority\": 2}'')])
     = Inr (JObject [(js ''title'', JString (js ''T'')), (js ''priority'', JNumber 2)])"
proof -
  have p: "JSON_parse (js ''{\"title\": \"T\",\<newline> \"priority\": 2}'') =
      Some (JObject [(js ''title'', JString (js ''T'')), (js ''priority'', JNumber 2)])"
    by code_simp
  have b: "opener_free (js ''The `result`:\<newline>'')"
    by code_simp
  from json_fence_stripped [OF p b] show ?thesis .
qed

text \<open>
  Further forms of a fence: with an upper-case tag or with carriage returns the fence is
  not stripped either; a fence of four backquotes with the tag is, since the pattern
  matches from its second backquote on.
\<close>

lemma further_fences:
  "ClaudeAIProvider_extractContext (Inr [TextBlock (js ''```JSON\<newline>{}\<newline>```'')]) =
     Inl MalformedResponse"
  "ClaudeAIProvider_extractContext
     (Inr [TextBlock (js ''```json'' @ [0x0D, 0x0A] @ js ''{}'' @ [0x0D, 0x0A] @ js ''```'')]) =
     Inl MalformedResponse"
  "ClaudeAIProvider_extractContext (Inr [TextBlock (js ''````json\<newline>{}\<newline>````'')]) =
     Inr (JObject [])"
  by code_simp+

end
